theory Spec2Isabelle
  imports
    Main
    "HOL-Library.Multiset"
    "HOL-Library.Product_Lexorder"
    "HOL-Library.Char_ord"
    "HOL-Library.List_Lexorder"
begin

section \<open>Python exceptions and psycopg2 composables\<close>

text \<open>
  Exceptions are values. A block of Python code that may raise is a function from the state
  to an outcome (\<open>None\<close>: it returned normally, \<open>Some e\<close>: it raised \<open>e\<close>) and the state it left.
\<close>

datatype exn =
    KeyError string
  | ValueError
  | TypeError
  | IndexError
  | StopIteration
  | GeneratorExit
  | NotImplementedError
  | DatabaseError string

text \<open>
  \<open>psycopg2.sql\<close>: a statement is built from \<open>SQL\<close> snippets and quoted \<open>Identifier\<close>s;
  \<open>+\<close> and \<open>join\<close> build \<open>Composed\<close> sequences. \<open>as_string\<close> is the text sent to the server.
\<close>

datatype composable = SQL string | Identifier string | Composed "composable list"

definition quote_ident :: "string \<Rightarrow> string" where
  "quote_ident s = CHR 0x22 # concat (map (\<lambda>c. if c = CHR 0x22 then [c, c] else [c]) s) @ [CHR 0x22]"

fun as_string :: "composable \<Rightarrow> string" where
  "as_string (SQL s) = s"
| "as_string (Identifier s) = quote_ident s"
| "as_string (Composed xs) = concat (map as_string xs)"

text \<open>\<open>Composable.__add__\<close> and \<open>Composed.__add__\<close>: a \<open>Composed\<close> operand is spliced in.\<close>

fun sql_add :: "composable \<Rightarrow> composable \<Rightarrow> composable" where
  "sql_add (Composed xs) (Composed ys) = Composed (xs @ ys)"
| "sql_add (Composed xs) b = Composed (xs @ [b])"
| "sql_add a (Composed ys) = Composed (a # ys)"
| "sql_add a b = Composed [a, b]"

text \<open>\<open>SQL(sep).join(seq)\<close>: the items of \<open>seq\<close> with \<open>SQL(sep)\<close> between them.\<close>

fun sql_join :: "string \<Rightarrow> composable list \<Rightarrow> composable list" where
  "sql_join sep [] = []"
| "sql_join sep [x] = [x]"
| "sql_join sep (x # y # ys) = x # SQL sep # sql_join sep (y # ys)"

section \<open>\<open>splitgraph/engine/__init__.py\<close>: engine configuration\<close>

definition ENGINE_SPECIFIC_CONFIG :: "string list" where
  "ENGINE_SPECIFIC_CONFIG =
    [''SG_ENGINE_HOST'', ''SG_ENGINE_PORT'', ''SG_ENGINE_USER'', ''SG_ENGINE_PWD'',
     ''SG_ENGINE_DB_NAME'', ''SG_ENGINE_POSTGRES_DB_NAME'', ''SG_ENGINE_ADMIN_USER'',
     ''SG_ENGINE_ADMIN_PWD'', ''SG_ENGINE_FDW_HOST'', ''SG_ENGINE_FDW_PORT'',
     ''SG_ENGINE_OBJECT_PATH'', ''SG_NAMESPACE'']"

definition ENGINE_CONFIG_DEFAULTS :: "(string \<times> string) list" where
  "ENGINE_CONFIG_DEFAULTS =
    [(''SG_ENGINE_FDW_HOST'', ''SG_ENGINE_HOST''), (''SG_ENGINE_FDW_PORT'', ''SG_ENGINE_PORT'')]"

text \<open>
  One iteration of the loop of \<open>_prepare_engine_config\<close>: \<open>config_dict[...]\<close> raises
  \<open>KeyError\<close> when the defaulting key is absent, whether or not \<open>key\<close> itself is present.
\<close>

definition prepare_key ::
  "(string \<rightharpoonup> 'v) \<Rightarrow> string \<Rightarrow> (string \<rightharpoonup> 'v) \<Rightarrow> exn + (string \<rightharpoonup> 'v)" where
  "prepare_key config_dict key result =
    (case (case map_of ENGINE_CONFIG_DEFAULTS key of
             None \<Rightarrow> Inr result
           | Some d \<Rightarrow>
               (case config_dict d of
                  None \<Rightarrow> Inl (KeyError d)
                | Some v \<Rightarrow> Inr (result(key \<mapsto> v)))) of
       Inl e \<Rightarrow> Inl e
     | Inr result1 \<Rightarrow>
         (case config_dict key of
            None \<Rightarrow> Inr result1
          | Some v \<Rightarrow> Inr (result1(key \<mapsto> v))))"

fun prepare_loop ::
  "(string \<rightharpoonup> 'v) \<Rightarrow> string list \<Rightarrow> (string \<rightharpoonup> 'v) \<Rightarrow> exn + (string \<rightharpoonup> 'v)" where
  "prepare_loop config_dict [] result = Inr result"
| "prepare_loop config_dict (key # keys) result =
    (case prepare_key config_dict key result of
       Inl e \<Rightarrow> Inl e
     | Inr result1 \<Rightarrow> prepare_loop config_dict keys result1)"

definition prepare_engine_config :: "(string \<rightharpoonup> 'v) \<Rightarrow> exn + (string \<rightharpoonup> 'v)" where
  "prepare_engine_config config_dict = prepare_loop config_dict ENGINE_SPECIFIC_CONFIG Map.empty"

section \<open>\<open>SQLEngine.savepoint\<close>\<close>

text \<open>
  The engine object carries \<open>_savepoint_stack\<close>; a subclass adds its own fields (the record is
  extensible). \<open>run_sql\<close> is abstract in \<open>SQLEngine\<close>, so the implementer's method is the
  parameter \<open>run_sql\<close>: it may fail and it may change the engine (the comment in the source
  expects it to roll back to the savepoint on a database error).

  The context manager returns the statements it passed to \<open>run_sql\<close> itself, in order, the
  outcome and the engine. \<open>finally\<close> runs on every exit of the body; an exception raised
  inside \<open>finally\<close> replaces the body's.
\<close>

record sql_engine =
  savepoint_stack :: "string list"

definition savepoint_stmt :: "string \<Rightarrow> composable" where
  "savepoint_stmt name = sql_add (SQL ''SAVEPOINT '') (Identifier name)"

definition release_stmt :: "string \<Rightarrow> composable" where
  "release_stmt name = sql_add (SQL ''RELEASE SAVEPOINT '') (Identifier name)"

definition savepoint ::
  "(composable \<Rightarrow> 'a sql_engine_scheme \<Rightarrow> exn option \<times> 'a sql_engine_scheme) \<Rightarrow> string \<Rightarrow>
   ('a sql_engine_scheme \<Rightarrow> exn option \<times> 'a sql_engine_scheme) \<Rightarrow> 'a sql_engine_scheme \<Rightarrow>
   composable list \<times> exn option \<times> 'a sql_engine_scheme" where
  "savepoint run_sql name body s =
    (case run_sql (savepoint_stmt name) s of
       (Some e, s1) \<Rightarrow> ([savepoint_stmt name], Some e, s1)
     | (None, s1) \<Rightarrow>
         (case body (s1\<lparr>savepoint_stack := savepoint_stack s1 @ [name]\<rparr>) of
            (r, s3) \<Rightarrow>
              if savepoint_stack s3 \<noteq> [] \<and> last (savepoint_stack s3) = name
              then
                (case run_sql (release_stmt name)
                        (s3\<lparr>savepoint_stack := butlast (savepoint_stack s3)\<rparr>) of
                   (Some e, s5) \<Rightarrow> ([savepoint_stmt name, release_stmt name], Some e, s5)
                 | (None, s5) \<Rightarrow> ([savepoint_stmt name, release_stmt name], r, s5))
              else ([savepoint_stmt name], r, s3)))"

text \<open>A \<open>run_sql\<close> that executes every statement without error and leaves the engine alone.\<close>

definition run_sql_ok :: "composable \<Rightarrow> 'a sql_engine_scheme \<Rightarrow> exn option \<times> 'a sql_engine_scheme" where
  "run_sql_ok stmt s = (None, s)"

text \<open>
  A body whose statement fails: the implementer's \<open>run_sql\<close> rolls back to the innermost
  savepoint, drops it from the stack and re-raises.
\<close>

definition body_rolled_back :: "'a sql_engine_scheme \<Rightarrow> exn option \<times> 'a sql_engine_scheme" where
  "body_rolled_back s =
    (Some (DatabaseError ''duplicate key''), s\<lparr>savepoint_stack := butlast (savepoint_stack s)\<rparr>)"

section \<open>\<open>switch_engine\<close>\<close>

text \<open>
  The module globals: \<open>_ENGINE\<close> is an engine name or an engine object, \<open>_ENGINES\<close> maps names
  to engine objects.
\<close>

datatype 'pe engine_ref = EngineName string | EngineObject 'pe

record 'pe module_globals =
  g_ENGINE :: "'pe engine_ref"
  g_ENGINES :: "string \<rightharpoonup> 'pe"

text \<open>The state in which the body of \<open>with switch_engine(engine)\<close> starts.\<close>

definition switch_engine_enter :: "'pe \<Rightarrow> 'pe module_globals \<Rightarrow> 'pe module_globals" where
  "switch_engine_enter engine s = s\<lparr>g_ENGINE := EngineObject engine\<rparr>"

definition switch_engine ::
  "'pe \<Rightarrow> ('pe module_globals \<Rightarrow> exn option \<times> 'pe module_globals) \<Rightarrow> 'pe module_globals \<Rightarrow>
   exn option \<times> 'pe module_globals" where
  "switch_engine engine body s =
    (let prev_engine = g_ENGINE s in
     case body (switch_engine_enter engine s) of
       (r, s2) \<Rightarrow> (r, s2\<lparr>g_ENGINE := prev_engine\<rparr>))"

section \<open>\<open>fdw_checkout.py\<close>: translating Multicorn quals\<close>

text \<open>Python's \<open>sep.join(xs)\<close> on strings.\<close>

fun str_join :: "string \<Rightarrow> string list \<Rightarrow> string" where
  "str_join sep [] = []"
| "str_join sep [x] = x"
| "str_join sep (x # y # ys) = x @ sep @ str_join sep (y # ys)"

text \<open>
  A Multicorn \<open>Qual\<close> is duck-typed. When \<open>is_list_operator\<close> holds, \<open>operator\<close> is a pair whose
  first component is the operator's name, \<open>list_any_or_all\<close> is \<open>ANY\<close> or \<open>ALL\<close> (\<open>QANY\<close>,
  \<open>QALL\<close> here) and \<open>value\<close> is a list; otherwise \<open>operator\<close> is the name and \<open>value\<close> one value.
\<close>

datatype any_or_all = QANY | QALL

datatype 'v qual =
    ScalarQual string string 'v
  | ListQual string string any_or_all "'v list"

fun field_name :: "'v qual \<Rightarrow> string" where
  "field_name (ScalarQual f opr v) = f"
| "field_name (ListQual f opr aa vs) = f"

text \<open>\<open>_qual_to_pg\<close>: the SQL object and the list of arguments to be mogrified into it.\<close>

fun qual_to_pg :: "'v qual \<Rightarrow> composable \<times> 'v list" where
  "qual_to_pg (ListQual f opr aa vs) =
     (sql_add (Identifier f)
        (SQL ('' '' @ (opr @ '' '' @ (if aa = QANY then ''ANY'' else ''ALL'')
              @ ''(ARRAY['' @ str_join '','' (map (\<lambda>_. ''%s'') [0..<length vs]) @ ''])''))),
      vs)"
| "qual_to_pg (ScalarQual f opr v) =
     (sql_add (Identifier f) (SQL ('' '' @ (opr @ '' %s''))), [v])"

text \<open>The loop of \<open>_quals_to_postgres\<close>: \<open>sql_objs.append(s)\<close>, \<open>vals.extend(v)\<close>.\<close>

fun quals_loop :: "'v qual list \<Rightarrow> composable list \<Rightarrow> 'v list \<Rightarrow> composable list \<times> 'v list" where
  "quals_loop [] sql_objs vals = (sql_objs, vals)"
| "quals_loop (q # quals) sql_objs vals =
     (case qual_to_pg q of (s, v) \<Rightarrow> quals_loop quals (sql_objs @ [s]) (vals @ v))"

definition quals_to_postgres :: "'v qual list \<Rightarrow> composable \<times> 'v list" where
  "quals_to_postgres quals =
     (case quals_loop quals [] [] of
        (sql_objs, vals) \<Rightarrow> (Composed (sql_join '' AND '' sql_objs), vals))"



section \<open>\<open>SQL.format\<close>\<close>

text \<open>
  \<open>SQL(template).format(*args)\<close> for the templates modelled here: positional arguments
  only, and the first field of the template, if any, is the automatic \<open>{}\<close> written in the
  source. The template is scanned left to right as \<open>string.Formatter.parse\<close> does: \<open>{{\<close> and
  \<open>}}\<close> are literal braces and end the current literal chunk, \<open>{}\<close> (and \<open>{:}\<close>, an empty
  format specification) is the next positional argument. psycopg2 appends a non-empty literal
  chunk as \<open>SQL(chunk)\<close>. Every other use of a brace raises: a lone brace or an unfinished
  field is a \<open>ValueError\<close> of the parser; a conversion or a format specification is a
  \<open>ValueError\<close> of psycopg2; a named field is a \<open>KeyError\<close> (no keyword arguments are
  passed) and a numbered field after an automatic one a \<open>ValueError\<close>; these are all
  reported as \<open>ValueError\<close> here. A field beyond the last argument raises \<open>IndexError\<close>.
  The state of the scan is the output so far, the literal chunk being read and the
  arguments not yet used.
\<close>

definition emit :: "string \<Rightarrow> composable list" where
  "emit lit = (if lit = [] then [] else [SQL lit])"

fun format_scan ::
  "string \<Rightarrow> string \<Rightarrow> composable list \<Rightarrow> composable list \<Rightarrow>
   exn + (composable list \<times> string \<times> composable list)" where
  "format_scan [] lit args out = Inr (out, lit, args)"
| "format_scan (c # cs) lit args out =
    (if c = CHR ''{'' then
       (case cs of
          [] \<Rightarrow> Inl ValueError
        | d # ds \<Rightarrow>
            if d = CHR ''{'' then format_scan ds [] args (out @ emit (lit @ [c]))
            else if d = CHR ''}'' then
              (case args of
                 [] \<Rightarrow> Inl IndexError
               | a # as \<Rightarrow> format_scan ds [] as (out @ emit lit @ [a]))
            else if d = CHR '':'' then
              (case ds of
                 [] \<Rightarrow> Inl ValueError
               | e # es \<Rightarrow>
                   if e = CHR ''}'' then
                     (case args of
                        [] \<Rightarrow> Inl IndexError
                      | a # as \<Rightarrow> format_scan es [] as (out @ emit lit @ [a]))
                   else Inl ValueError)
            else Inl ValueError)
     else if c = CHR ''}'' then
       (case cs of
          [] \<Rightarrow> Inl ValueError
        | d # ds \<Rightarrow>
            if d = CHR ''}'' then format_scan ds [] args (out @ emit (lit @ [c]))
            else Inl ValueError)
     else format_scan cs (lit @ [c]) args out)"

definition sql_format :: "string \<Rightarrow> composable list \<Rightarrow> exn + composable" where
  "sql_format template args =
    (case format_scan template [] args [] of
       Inl e \<Rightarrow> Inl e
     | Inr (out, lit, rest) \<Rightarrow> Inr (Composed (out @ emit lit)))"


section \<open>What the specification says about qual translation\<close>

text \<open>
  The fragment and the bound values that the specification gives for one qual: a scalar
  qual is \<open>field op %s\<close> with one bound value, a list qual is \<open>field op ANY(ARRAY[%s,...])\<close>
  or \<open>field op ALL(ARRAY[%s,...])\<close> with one placeholder and one bound value per element.
  The field is written as psycopg2 quotes an identifier.
\<close>

fun qual_fragment :: "'v qual \<Rightarrow> string" where
  "qual_fragment (ScalarQual f opr v) = quote_ident f @ '' '' @ opr @ '' %s''"
| "qual_fragment (ListQual f opr aa vs) =
     quote_ident f @ '' '' @ opr @ '' '' @ (case aa of QANY \<Rightarrow> ''ANY'' | QALL \<Rightarrow> ''ALL'')
       @ ''(ARRAY['' @ str_join '','' (replicate (length vs) ''%s'') @ ''])''"

fun qual_bound_values :: "'v qual \<Rightarrow> 'v list" where
  "qual_bound_values (ScalarQual f opr v) = [v]"
| "qual_bound_values (ListQual f opr aa vs) = vs"

section \<open>\<open>SQLEngine.dump_table_creation\<close>\<close>

text \<open>
  A schema spec is a list of \<open>(ordinal_position, column_name, data_type, is_pk)\<close>. Python's
  \<open>sorted\<close> on these tuples is the lexicographic order of the components (integers, strings
  by code point, \<open>False < True\<close>), which is the order of the product type here.

  \<open>Identifier(schema)\<close> raises \<open>TypeError\<close> when \<open>schema\<close> is \<open>None\<close>; it is only built when
  the table is not temporary. \<open>SQL("{}").format(Identifier(c))\<close> is \<open>Composed [Identifier c]\<close>.
\<close>

type_synonym schema_entry = "int \<times> string \<times> string \<times> bool"

definition col_ordinal :: "schema_entry \<Rightarrow> int" where
  "col_ordinal e = fst e"

definition col_name :: "schema_entry \<Rightarrow> string" where
  "col_name e = fst (snd e)"

definition col_type :: "schema_entry \<Rightarrow> string" where
  "col_type e = fst (snd (snd e))"

definition col_is_pk :: "schema_entry \<Rightarrow> bool" where
  "col_is_pk e = snd (snd (snd e))"

definition dump_table_creation ::
  "string option \<Rightarrow> string \<Rightarrow> schema_entry list \<Rightarrow> bool \<Rightarrow> bool \<Rightarrow> exn + composable" where
  "dump_table_creation schema table schema_spec unlogged temporary =
    (let flavour = (if temporary then ''TEMPORARY'' else if unlogged then ''UNLOGGED'' else '''');
         schema_spec = sort schema_spec
     in
     case (if temporary then Inr (Identifier table)
           else (case schema of
                   None \<Rightarrow> Inl TypeError
                 | Some sch \<Rightarrow> sql_format ''{}.{}'' [Identifier sch, Identifier table])) of
       Inl e \<Rightarrow> Inl e
     | Inr target \<Rightarrow>
         (case sql_format
                 ('' ('' @ str_join '','' (map (\<lambda>e. ''{} '' @ col_type e @ '' '') schema_spec))
                 (map (\<lambda>e. Identifier (col_name e)) schema_spec) of
            Inl e \<Rightarrow> Inl e
          | Inr columns \<Rightarrow>
              (let query = sql_add (sql_add (SQL (''CREATE '' @ flavour @ '' TABLE '')) target) columns;
                   pk_cols = map col_name (filter col_is_pk schema_spec);
                   query =
                     (if pk_cols \<noteq> [] then
                        sql_add query
                          (sql_add
                             (sql_add (SQL '', PRIMARY KEY ('')
                                (Composed (sql_join '','' (map (\<lambda>c. Composed [Identifier c]) pk_cols))))
                             (SQL ''))''))
                      else sql_add query (SQL '')''));
                   query =
                     (if unlogged then sql_add query (SQL '' WITH(autovacuum_enabled=false)'')
                      else query)
               in Inr query)))"

text \<open>
  The text of the \<open>CREATE TABLE\<close> statement over an ordered spec, spelled out: the columns
  in order, each as \<open>"name" type\<close>, then the \<open>PRIMARY KEY\<close> clause over the key columns
  when there is one. \<open>brace_free\<close>: a string that \<open>format\<close> reads as literal text.
\<close>

definition brace_free :: "string \<Rightarrow> bool" where
  "brace_free s = (CHR ''{'' \<notin> set s \<and> CHR ''}'' \<notin> set s)"

definition create_table_text ::
  "string option \<Rightarrow> string \<Rightarrow> schema_entry list \<Rightarrow> bool \<Rightarrow> bool \<Rightarrow> string" where
  "create_table_text schema table ordered unlogged temporary =
    ''CREATE '' @ (if temporary then ''TEMPORARY'' else if unlogged then ''UNLOGGED'' else '''')
    @ '' TABLE ''
    @ (if temporary then quote_ident table
       else quote_ident (case schema of None \<Rightarrow> [] | Some sch \<Rightarrow> sch) @ ''.'' @ quote_ident table)
    @ '' ('' @ str_join '','' (map (\<lambda>e. quote_ident (col_name e) @ '' '' @ col_type e @ '' '') ordered)
    @ (if list_ex col_is_pk ordered
       then '', PRIMARY KEY (''
            @ str_join '','' (map (\<lambda>e. quote_ident (col_name e)) (filter col_is_pk ordered))
            @ ''))''
       else '')'')
    @ (if unlogged then '' WITH(autovacuum_enabled=false)'' else '''')"

section \<open>\<open>fdw_checkout.py\<close>: the row stream of \<open>_run_select_from_staging\<close>\<close>

text \<open>
  The query of \<open>_run_select_from_staging\<close>: \<open>SELECT\<close>, the quoted columns separated by
  commas, \<open>FROM schema.table\<close>. It has no \<open>WHERE\<close> clause and is executed without arguments.
\<close>

definition select_query :: "string \<Rightarrow> string \<Rightarrow> string list \<Rightarrow> exn + composable" where
  "select_query schema table columns =
    (case sql_format (str_join '','' (map (\<lambda>_. ''{}'') columns)) (map Identifier columns) of
       Inl e \<Rightarrow> Inl e
     | Inr cols \<Rightarrow>
         (case sql_format '' FROM {}.{}'' [Identifier schema, Identifier table] of
            Inl e \<Rightarrow> Inl e
          | Inr from_clause \<Rightarrow> Inr (sql_add (sql_add (SQL ''SELECT '') cols) from_clause)))"

text \<open>
  \<open>_run_select_from_staging\<close> is a generator function: calling it runs nothing, the body
  starts at the first \<open>next\<close>. The generator object is its arguments and where its body
  stands: not started, suspended at the \<open>yield\<close> (with the rows the server-side cursor has
  not delivered yet), or finished. What the body does to the engine is the list of calls
  it makes (logging is left out); a tuple of the cursor is a list of cells, \<open>None\<close> for SQL
  \<open>NULL\<close>. An outcome is a yielded dictionary or the exception the body raises.
\<close>

datatype engine_call =
    OpenCursor string
  | CursorExecute composable
  | CursorClose
  | DeleteTable string string
  | Rollback

datatype 'v gen_state = NotStarted | Suspended "'v option list list" | Finished

record 'v select_gen =
  gen_schema :: string
  gen_table :: string
  gen_columns :: "string list"
  gen_drop_table :: bool
  gen_state :: "'v gen_state"

datatype 'v gen_outcome = Yield "(string \<times> 'v option) list" | Raise exn

definition run_select_from_staging :: "string \<Rightarrow> string \<Rightarrow> string list \<Rightarrow> bool \<Rightarrow> 'v select_gen" where
  "run_select_from_staging schema table columns drop_table =
    \<lparr>gen_schema = schema, gen_table = table, gen_columns = columns,
     gen_drop_table = drop_table, gen_state = NotStarted\<rparr>"

text \<open>
  One turn of \<open>while True\<close>: \<open>next(cur)\<close> either delivers a tuple, which is yielded as a
  dictionary, or raises \<open>StopIteration\<close>; the handler closes the cursor, deletes the table
  when \<open>drop_table\<close> is set, rolls the transaction back and raises \<open>StopIteration\<close> itself.
  (How the interpreter hands that exception to the caller of \<open>next\<close>, as the end of the
  iteration or, since PEP 479, as a \<open>RuntimeError\<close>, is outside this model.)
\<close>

definition gen_loop ::
  "'v select_gen \<Rightarrow> 'v option list list \<Rightarrow> engine_call list \<times> 'v gen_outcome \<times> 'v select_gen" where
  "gen_loop g rows =
    (case rows of
       [] \<Rightarrow>
         ([CursorClose]
            @ (if gen_drop_table g then [DeleteTable (gen_schema g) (gen_table g)] else [])
            @ [Rollback],
          Raise StopIteration, g\<lparr>gen_state := Finished\<rparr>)
     | t # rest \<Rightarrow> ([], Yield (zip (gen_columns g) t), g\<lparr>gen_state := Suspended rest\<rparr>))"

text \<open>
  \<open>next(gen)\<close>. \<open>result\<close> is what the server returns for the query. A finished generator
  raises \<open>StopIteration\<close> and touches nothing.
\<close>

definition gen_next ::
  "'v option list list \<Rightarrow> 'v select_gen \<Rightarrow> engine_call list \<times> 'v gen_outcome \<times> 'v select_gen" where
  "gen_next result g =
    (case gen_state g of
       NotStarted \<Rightarrow>
         (case select_query (gen_schema g) (gen_table g) (gen_columns g) of
            Inl e \<Rightarrow> ([OpenCursor ''sg_layered_query_cursor''], Raise e, g\<lparr>gen_state := Finished\<rparr>)
          | Inr query \<Rightarrow>
              (case gen_loop g result of
                 (calls, out, g') \<Rightarrow>
                   (OpenCursor ''sg_layered_query_cursor'' # CursorExecute query # calls, out, g')))
     | Suspended rows \<Rightarrow> gen_loop g rows
     | Finished \<Rightarrow> ([], Raise StopIteration, g))"

text \<open>
  \<open>gen.close()\<close>, which is also what abandoning the generator does: a generator suspended at
  the \<open>yield\<close> gets \<open>GeneratorExit\<close> there; \<open>except StopIteration\<close> does not catch it and
  there is no \<open>finally\<close>, so the body ends without another call.
\<close>

definition gen_close :: "'v select_gen \<Rightarrow> engine_call list \<times> 'v select_gen" where
  "gen_close g = ([], g\<lparr>gen_state := Finished\<rparr>)"

text \<open>\<open>n\<close> times \<open>next\<close>: the calls made, the outcomes, and the generator left.\<close>

fun gen_take ::
  "nat \<Rightarrow> 'v option list list \<Rightarrow> 'v select_gen \<Rightarrow>
   engine_call list \<times> 'v gen_outcome list \<times> 'v select_gen" where
  "gen_take 0 result g = ([], [], g)"
| "gen_take (Suc n) result g =
    (case gen_next result g of
       (calls, out, g') \<Rightarrow>
         (case gen_take n result g' of
            (calls', outs, g'') \<Rightarrow> (calls @ calls', out # outs, g'')))"

section \<open>\<open>fdw_checkout.py\<close>: \<open>QueryingForeignDataWrapper.execute\<close>\<close>

text \<open>
  The wrapper object after \<open>__init__\<close>: the snapshot's object id and the diff chain in
  application order. \<open>SPLITGRAPH_META_SCHEMA\<close> is a constant of the package that is not in
  the source files, so it is a field too. What the engine answers about the snapshot table
  is the catalog: \<open>get_primary_keys\<close> and \<open>get_column_names_types\<close>, both lists of
  \<open>(column name, column type)\<close>.
\<close>

record fdw =
  meta_schema :: string
  snap :: string
  diff_chain :: "string list"

record catalog =
  primary_keys :: "(string \<times> string) list"
  column_names_types :: "(string \<times> string) list"

text \<open>\<open>ChangeEngine.get_change_key\<close>: the primary key, or every column when there is none.\<close>

definition get_change_key :: "catalog \<Rightarrow> (string \<times> string) list" where
  "get_change_key cat =
    (if primary_keys cat \<noteq> [] then primary_keys cat else column_names_types cat)"

text \<open>
  Modelled from the spec: \<open>get_column_names\<close> of the Postgres engine is not in the source
  files; it is taken to be the names of \<open>get_column_names_types\<close>.
\<close>

definition get_column_names :: "catalog \<Rightarrow> string list" where
  "get_column_names cat = map fst (column_names_types cat)"

text \<open>
  The statements \<open>execute\<close> sends to the engine, by what they are; each carries the
  arguments the source formats into it.
  \<^item> \<open>CreateStagingTable schema staging snap\<close>:
    \<open>CREATE TABLE schema.staging AS SELECT * FROM schema.snap LIMIT 1 WITH NO DATA\<close>;
  \<^item> \<open>AddKeepPkColumn schema staging\<close>:
    \<open>ALTER TABLE schema.staging ADD COLUMN sg_meta_keep_pk BOOLEAN DEFAULT TRUE\<close>;
  \<^item> \<open>AddPrimaryKey schema staging cols\<close>: \<open>ALTER TABLE schema.staging ADD PRIMARY KEY (cols)\<close>;
  \<^item> \<open>InsertUpdatedRows schema staging snap object ri_cols all_cols\<close> (step 1 of the source):
    \<open>INSERT INTO schema.staging (all_cols, sg_meta_keep_pk) (SELECT snap.all_cols, TRUE FROM
    schema.snap JOIN schema.object ON\<close> equality on \<open>ri_cols\<close>
    \<open>WHERE object.sg_action_kind=2) ON CONFLICT DO NOTHING\<close>;
  \<^item> \<open>InsertMatchingRows schema staging snap all_cols quals\<close> (step 2):
    \<open>INSERT INTO schema.staging (all_cols, sg_meta_keep_pk) (SELECT all_cols, FALSE FROM
    schema.snap [WHERE qual_sql]) ON CONFLICT DO NOTHING\<close>, the \<open>WHERE\<close> clause present when
    \<open>quals\<close> is not empty, executed with \<open>qual_vals\<close>;
  \<^item> \<open>ApplyDiffObject schema object schema' staging\<close>: the call of \<open>engine.apply_diff_object\<close>;
  \<^item> \<open>QualFilter schema staging quals\<close>: the statement of \<open>_apply_qual_filter\<close>,
    \<open>DELETE FROM schema.staging WHERE sg_meta_keep_pk = FALSE AND NOT (qual_sql)\<close>, executed
    with \<open>qual_vals\<close>.
\<close>

datatype 'v statement =
    CreateStagingTable string string string
  | AddKeepPkColumn string string
  | AddPrimaryKey string string "string list"
  | InsertUpdatedRows string string string string "string list" "string list"
  | InsertMatchingRows string string string "string list" "'v qual list"
  | ApplyDiffObject string string string string
  | QualFilter string string "'v qual list"


text \<open>\<open>all(q.field_name in ri_cols for q in quals)\<close>.\<close>

definition pk_only_quals :: "string list \<Rightarrow> 'v qual list \<Rightarrow> bool" where
  "pk_only_quals ri_cols quals = list_all (\<lambda>q. field_name q \<in> set ri_cols) quals"

text \<open>Step 3, the loop over \<open>self.diff_chain[:-1]\<close>.\<close>

fun apply_diffs_loop :: "string \<Rightarrow> string \<Rightarrow> 'v qual list \<Rightarrow> string list \<Rightarrow> 'v statement list" where
  "apply_diffs_loop schema staging quals [] = []"
| "apply_diffs_loop schema staging quals (object_id # rest) =
     ApplyDiffObject schema object_id schema staging
       # (if quals \<noteq> [] then [QualFilter schema staging quals] else [])
       @ apply_diffs_loop schema staging quals rest"

text \<open>
  \<open>execute\<close>: the statements sent, in order, and what is returned: the generator of
  \<open>_run_select_from_staging\<close>, not yet started, or the exception raised.
  \<open>staging_table\<close> is the result of \<open>get_random_object_id()\<close>.
  \<open>ri_cols, _ = zip(*get_change_key(...))\<close> raises \<open>ValueError\<close> when the change key is
  empty (a table without columns), after the first statements were sent.
\<close>

definition execute ::
  "fdw \<Rightarrow> catalog \<Rightarrow> string \<Rightarrow> 'v qual list \<Rightarrow> string list \<Rightarrow>
   'v statement list \<times> (exn + 'v select_gen)" where
  "execute self cat staging_table quals columns =
    (if diff_chain self = [] then
       ([], Inr (run_select_from_staging (meta_schema self) (snap self) columns False))
     else
       (let pks = primary_keys cat;
            setup =
              [CreateStagingTable (meta_schema self) staging_table (snap self),
               AddKeepPkColumn (meta_schema self) staging_table]
              @ (if pks \<noteq> [] then [AddPrimaryKey (meta_schema self) staging_table (map fst pks)]
                 else [])
        in
        case get_change_key cat of
          [] \<Rightarrow> (setup, Inl ValueError)
        | ck # cks \<Rightarrow>
            (let ri_cols = map fst (ck # cks);
                 all_cols = get_column_names cat;
                 step1 =
                   (if \<not> pk_only_quals ri_cols quals then
                      map (\<lambda>object_id.
                            InsertUpdatedRows (meta_schema self) staging_table (snap self)
                              object_id ri_cols all_cols)
                        (diff_chain self)
                    else []);
                 step2 =
                   [InsertMatchingRows (meta_schema self) staging_table (snap self) all_cols quals];
                 step3 =
                   apply_diffs_loop (meta_schema self) staging_table quals
                     (butlast (diff_chain self));
                 final =
                   [ApplyDiffObject (meta_schema self) (last (diff_chain self))
                      (meta_schema self) staging_table]
             in (setup @ step1 @ step2 @ step3 @ final,
                 Inr (run_select_from_staging (meta_schema self) staging_table columns True)))))"

section \<open>The relational engine, as far as \<open>execute\<close> uses it\<close>

text \<open>
  A row gives every column its cell, \<open>None\<close> for SQL \<open>NULL\<close>. The operators of the
  quals are the engine's: \<open>ops opr cell v\<close> is the value of \<open>cell opr v\<close> in SQL's
  three-valued logic, \<open>Some True\<close>, \<open>Some False\<close> or \<open>None\<close> for unknown (as a comparison
  with a \<open>NULL\<close> cell is).

  \<open>x opr ANY (ARRAY[...])\<close> is true when some comparison is, else unknown when some
  comparison is, else false; \<open>ALL\<close> and \<open>AND\<close> are false when some operand is, else
  unknown when some operand is, else true; \<open>NOT\<close> exchanges true and false and leaves
  unknown. \<open>WHERE\<close> selects the rows on which its condition is true.

  A qual means to the executor, which applies it again, what its translation by
  \<open>_quals_to_postgres\<close> means to the engine.
\<close>

type_synonym 'v row = "string \<Rightarrow> 'v option"

type_synonym 'v operators = "string \<Rightarrow> 'v option \<Rightarrow> 'v \<Rightarrow> bool option"

definition sql_any :: "bool option list \<Rightarrow> bool option" where
  "sql_any bs =
    (if Some True \<in> set bs then Some True else if None \<in> set bs then None else Some False)"

definition sql_all :: "bool option list \<Rightarrow> bool option" where
  "sql_all bs =
    (if Some False \<in> set bs then Some False else if None \<in> set bs then None else Some True)"

definition sql_not :: "bool option \<Rightarrow> bool option" where
  "sql_not b = map_option Not b"

fun qual_value :: "'v operators \<Rightarrow> 'v qual \<Rightarrow> 'v row \<Rightarrow> bool option" where
  "qual_value ops (ScalarQual f opr v) r = ops opr (r f) v"
| "qual_value ops (ListQual f opr QANY vs) r = sql_any (map (ops opr (r f)) vs)"
| "qual_value ops (ListQual f opr QALL vs) r = sql_all (map (ops opr (r f)) vs)"

text \<open>The value of \<open>qual_sql\<close>, the quals joined by \<open>AND\<close>, on a row.\<close>

definition quals_value :: "'v operators \<Rightarrow> 'v qual list \<Rightarrow> 'v row \<Rightarrow> bool option" where
  "quals_value ops quals r = sql_all (map (\<lambda>q. qual_value ops q r) quals)"

text \<open>A row satisfies the quals when their conjunction is true of it.\<close>

definition quals_hold :: "'v operators \<Rightarrow> 'v qual list \<Rightarrow> 'v row \<Rightarrow> bool" where
  "quals_hold ops quals r = (quals_value ops quals r = Some True)"

text \<open>
  The statements of \<open>execute\<close> that carry \<open>qual_sql\<close> are analysed by the engine before
  they run, qual by qual, the column first: a qual on a column the table does not have is
  refused, and so is a list qual with no values, whose translation \<open>opr ANY(ARRAY[])\<close>
  has an array of no determinable type.
\<close>

fun qual_error :: "string list \<Rightarrow> 'v qual \<Rightarrow> exn option" where
  "qual_error cols (ScalarQual f opr v) =
     (if f \<notin> set cols then Some (DatabaseError ''column does not exist'') else None)"
| "qual_error cols (ListQual f opr aa vs) =
     (if f \<notin> set cols then Some (DatabaseError ''column does not exist'')
      else if vs = [] then Some (DatabaseError ''cannot determine type of empty array'')
      else None)"

fun quals_error :: "string list \<Rightarrow> 'v qual list \<Rightarrow> exn option" where
  "quals_error cols [] = None"
| "quals_error cols (q # quals) =
     (case qual_error cols q of Some e \<Rightarrow> Some e | None \<Rightarrow> quals_error cols quals)"

definition key_of :: "string list \<Rightarrow> 'v row \<Rightarrow> 'v option list" where
  "key_of cols r = map r cols"

text \<open>
  A change record of a diff object, as the specification's data model has it: the values
  of the change-key columns, the action (\<open>INSERT\<close> = 0, \<open>DELETE\<close> = 1, \<open>UPDATE\<close> = 2) and the
  payload, the affected columns with their values.
\<close>

datatype action_kind = INSERT | DELETE | UPDATE

record 'v change =
  change_key :: "'v option list"
  action :: action_kind
  payload :: "(string \<times> 'v option) list"

definition set_columns :: "(string \<times> 'v option) list \<Rightarrow> 'v row \<Rightarrow> 'v row" where
  "set_columns cvs r = fold (\<lambda>(c, v) r'. r'(c := v)) cvs r"

definition row_of_insert :: "string list \<Rightarrow> 'v change \<Rightarrow> 'v row" where
  "row_of_insert kc c = set_columns (payload c) (set_columns (zip kc (change_key c)) (\<lambda>_. None))"

definition update_row :: "string list \<Rightarrow> 'v change list \<Rightarrow> 'v row \<Rightarrow> 'v row" where
  "update_row kc d r =
    fold (\<lambda>c r'. if action c = UPDATE \<and> change_key c = key_of kc r
                  then set_columns (payload c) r' else r') d r"

text \<open>
  Modelled from the spec: \<open>apply_diff_object\<close> of the Postgres engine is not in the source
  files. Section 4.2 of the specification: for each record, \<open>INSERT\<close>/\<open>UPDATE\<close>/\<open>DELETE\<close>
  against the target by change key, all \<open>DELETE\<close>s first, then the \<open>UPDATE\<close>s, then the
  \<open>INSERT\<close>s. The rows of the target carry a tag (the \<open>sg_meta_keep_pk\<close> column of the
  staging table, nothing for a materialized table); an inserted row gets the column's
  default.
\<close>

definition apply_diff ::
  "string list \<Rightarrow> 't \<Rightarrow> 'v change list \<Rightarrow> ('v row \<times> 't) list \<Rightarrow> ('v row \<times> 't) list" where
  "apply_diff kc dflt d target =
    (let deleted = map change_key (filter (\<lambda>c. action c = DELETE) d);
         kept = filter (\<lambda>(r, t). key_of kc r \<notin> set deleted) target;
         updated = map (\<lambda>(r, t). (update_row kc d r, t)) kept
     in updated @ map (\<lambda>c. (row_of_insert kc c, dflt)) (filter (\<lambda>c. action c = INSERT) d))"

text \<open>
  \<open>INSERT ... ON CONFLICT DO NOTHING\<close>: a new row is skipped when the table has a primary
  key and a row with the same key is already there.
\<close>

fun insert_on_conflict ::
  "string list \<Rightarrow> ('v row \<times> bool) list \<Rightarrow> ('v row \<times> bool) list \<Rightarrow> ('v row \<times> bool) list" where
  "insert_on_conflict pk [] target = target"
| "insert_on_conflict pk ((r, k) # new) target =
     insert_on_conflict pk new
       (if pk \<noteq> [] \<and> key_of pk r \<in> set (map (\<lambda>(r', k'). key_of pk r') target)
        then target else target @ [(r, k)])"

text \<open>
  The rows that step 1 selects: the join of the snapshot with a diff object on the change
  key, restricted to the \<open>UPDATE\<close> records (\<open>sg_action_kind = 2\<close>); one row per matching
  pair, each with \<open>sg_meta_keep_pk = TRUE\<close>. Keys are compared as lists of cells: the
  columns of a primary key hold no \<open>NULL\<close>, and for a table without a primary key
  \<open>execute\<close> sends step 1 only with quals that step 2 fails on (a qual on a column that
  is none of the table's).
\<close>

definition updated_snapshot_rows ::
  "string list \<Rightarrow> 'v row list \<Rightarrow> 'v change list \<Rightarrow> ('v row \<times> bool) list" where
  "updated_snapshot_rows ri_cols rows d =
    concat (map (\<lambda>r. map (\<lambda>c. (r, True))
                       (filter (\<lambda>c. action c = UPDATE \<and> change_key c = key_of ri_cols r) d))
              rows)"

text \<open>
  The database as the query sees it: the rows of the snapshot table, the change records
  of every diff object, the engine's operators (three-valued). The staging table is its
  primary key (empty: none) and its rows, each with its \<open>sg_meta_keep_pk\<close>; its other
  columns are those of the snapshot table, which the catalog lists. It does not exist
  before \<open>CreateStagingTable\<close>.

  A statement either fails with the engine's error, which \<open>run_sql\<close> raises out of
  \<open>execute\<close>, or changes the staging table:
  \<^item> a statement on a staging table that does not exist fails, before anything else of
    it is looked at, and so does creating one that exists;
  \<^item> \<open>ADD COLUMN sg_meta_keep_pk\<close> fails when the table copied from the snapshot has a
    column of that name already;
  \<^item> step 2 has a \<open>WHERE\<close> clause when there are quals, and fails when the engine refuses
    one of them on the snapshot table; it inserts the snapshot rows on which the quals
    are true;
  \<^item> the statement of \<open>_apply_qual_filter\<close> fails when the engine refuses one of the quals
    (a qual on \<open>sg_meta_keep_pk\<close> itself, which step 2 refuses on the snapshot, is refused
    here too: the rows do not carry that column as a cell), and with no qual at all, its
    text ending in \<open>NOT ()\<close>. It deletes the rows on which
    \<open>sg_meta_keep_pk = FALSE AND NOT (qual_sql)\<close> is true: a row with
    \<open>sg_meta_keep_pk = FALSE\<close> on which the quals are unknown stays.
\<close>

record 'v database =
  snap_rows :: "'v row list"
  object_diff :: "string \<Rightarrow> 'v change list"
  operator_holds :: "'v operators"

record 'v staging =
  st_pk :: "string list"
  st_rows :: "('v row \<times> bool) list"

definition on_staging ::
  "'v staging option \<Rightarrow> ('v staging \<Rightarrow> exn + 'v staging) \<Rightarrow> exn + 'v staging option" where
  "on_staging st f =
    (case st of
       None \<Rightarrow> Inl (DatabaseError ''relation does not exist'')
     | Some s \<Rightarrow> (case f s of Inl e \<Rightarrow> Inl e | Inr s' \<Rightarrow> Inr (Some s')))"

text \<open>The condition of the \<open>DELETE\<close> of \<open>_apply_qual_filter\<close> on a row of the staging table.\<close>

definition qual_filter_condition ::
  "'v operators \<Rightarrow> 'v qual list \<Rightarrow> 'v row \<times> bool \<Rightarrow> bool option" where
  "qual_filter_condition ops quals row =
    sql_all [Some (snd row = False), sql_not (quals_value ops quals (fst row))]"

fun run_statement ::
  "catalog \<Rightarrow> 'v database \<Rightarrow> 'v statement \<Rightarrow> 'v staging option \<Rightarrow> exn + 'v staging option" where
  "run_statement cat db (CreateStagingTable schema staging snp) st =
     (case st of
        None \<Rightarrow> Inr (Some \<lparr>st_pk = [], st_rows = []\<rparr>)
      | Some s \<Rightarrow> Inl (DatabaseError ''relation already exists''))"
| "run_statement cat db (AddKeepPkColumn schema staging) st =
     on_staging st
       (\<lambda>s. if ''sg_meta_keep_pk'' \<in> set (get_column_names cat)
            then Inl (DatabaseError ''column already exists'')
            else Inr s)"
| "run_statement cat db (AddPrimaryKey schema staging cols) st =
     on_staging st (\<lambda>s. Inr (s\<lparr>st_pk := cols\<rparr>))"
| "run_statement cat db (InsertUpdatedRows schema staging snp object_id ri_cols all_cols) st =
     on_staging st
       (\<lambda>s. Inr (s\<lparr>st_rows :=
                insert_on_conflict (st_pk s)
                  (updated_snapshot_rows ri_cols (snap_rows db) (object_diff db object_id))
                  (st_rows s)\<rparr>))"
| "run_statement cat db (InsertMatchingRows schema staging snp all_cols quals) st =
     on_staging st
       (\<lambda>s. case quals_error (get_column_names cat) quals of
               Some e \<Rightarrow> Inl e
             | None \<Rightarrow>
                 Inr (s\<lparr>st_rows :=
                        insert_on_conflict (st_pk s)
                          (map (\<lambda>r. (r, False))
                             (filter (quals_hold (operator_holds db) quals) (snap_rows db)))
                          (st_rows s)\<rparr>))"
| "run_statement cat db (ApplyDiffObject schema object_id schema' staging) st =
     on_staging st
       (\<lambda>s. Inr (s\<lparr>st_rows :=
                apply_diff (map fst (get_change_key cat)) True (object_diff db object_id)
                  (st_rows s)\<rparr>))"
| "run_statement cat db (QualFilter schema staging quals) st =
     (if quals = [] then Inl (DatabaseError ''syntax error'')
      else
        on_staging st
          (\<lambda>s. case quals_error (get_column_names cat) quals of
                  Some e \<Rightarrow> Inl e
                | None \<Rightarrow>
                    Inr (s\<lparr>st_rows :=
                           filter (\<lambda>row. qual_filter_condition (operator_holds db) quals row
                                           \<noteq> Some True)
                             (st_rows s)\<rparr>)))"

text \<open>The statements in order, up to the first that fails.\<close>

fun run_statements ::
  "catalog \<Rightarrow> 'v database \<Rightarrow> 'v statement list \<Rightarrow> 'v staging option \<Rightarrow> exn + 'v staging option" where
  "run_statements cat db [] st = Inr st"
| "run_statements cat db (stmt # stmts) st =
     (case run_statement cat db stmt st of
        Inl e \<Rightarrow> Inl e
      | Inr st' \<Rightarrow> run_statements cat db stmts st')"

text \<open>What the cursor of \<open>SELECT columns FROM table\<close> delivers: every row, as a tuple.\<close>

definition select_result :: "string list \<Rightarrow> 'v row list \<Rightarrow> 'v option list list" where
  "select_result columns rows = map (\<lambda>r. map r columns) rows"

text \<open>The dictionaries a generator yields until it stops, given the cursor's result.\<close>

fun yielded :: "'v gen_outcome list \<Rightarrow> (string \<times> 'v option) list list" where
  "yielded [] = []"
| "yielded (Yield d # outs) = d # yielded outs"
| "yielded (Raise e # outs) = yielded outs"

definition stream :: "'v option list list \<Rightarrow> 'v select_gen \<Rightarrow> (string \<times> 'v option) list list" where
  "stream result g = yielded (fst (snd (gen_take (Suc (length result)) result g)))"

text \<open>
  The layered query: \<open>execute\<close>, its statements run on the engine, and the returned
  generator consumed over the table it reads: the snapshot when the chain is empty, the
  staging table otherwise. The error of a statement that fails is raised out of \<open>execute\<close>,
  before any exception \<open>execute\<close> raises after its statements.
\<close>

definition layered_query ::
  "fdw \<Rightarrow> catalog \<Rightarrow> 'v database \<Rightarrow> string \<Rightarrow> 'v qual list \<Rightarrow> string list \<Rightarrow>
   exn + (string \<times> 'v option) list list" where
  "layered_query self cat db staging_table quals columns =
    (case execute self cat staging_table quals columns of
       (stmts, outcome) \<Rightarrow>
         (case run_statements cat db stmts None of
            Inl e \<Rightarrow> Inl e
          | Inr st \<Rightarrow>
              (case outcome of
                 Inl e \<Rightarrow> Inl e
               | Inr g \<Rightarrow>
                   (if diff_chain self = [] then
                      Inr (stream (select_result columns (snap_rows db)) g)
                    else
                      (case st of
                         None \<Rightarrow> Inl (DatabaseError ''relation does not exist'')
                       | Some s \<Rightarrow>
                           Inr (stream (select_result columns (map fst (st_rows s))) g))))))"

text \<open>
  The executor does not trust the wrapper and applies the quals again to the rows it
  gets; a column the row does not have reads as \<open>NULL\<close>.
\<close>

definition dict_row :: "(string \<times> 'v option) list \<Rightarrow> 'v row" where
  "dict_row d c = (case map_of d c of None \<Rightarrow> None | Some v \<Rightarrow> v)"

definition reapply_quals ::
  "'v operators \<Rightarrow> 'v qual list \<Rightarrow> (string \<times> 'v option) list list \<Rightarrow>
   (string \<times> 'v option) list list" where
  "reapply_quals ops quals dicts = filter (\<lambda>d. quals_hold ops quals (dict_row d)) dicts"

text \<open>
  The reference: the table of the image fully materialized, the snapshot with every diff
  of the chain applied in order, and \<open>SELECT columns FROM\<close> it \<open>WHERE quals\<close>.
\<close>

definition materialize :: "catalog \<Rightarrow> 'v database \<Rightarrow> string list \<Rightarrow> 'v row list" where
  "materialize cat db chain =
    map fst
      (fold (\<lambda>object_id t. apply_diff (map fst (get_change_key cat)) () (object_diff db object_id) t)
         chain (map (\<lambda>r. (r, ())) (snap_rows db)))"

definition select_where ::
  "'v operators \<Rightarrow> 'v qual list \<Rightarrow> string list \<Rightarrow> 'v row list \<Rightarrow>
   (string \<times> 'v option) list list" where
  "select_where ops quals columns rows =
    map (\<lambda>r. zip columns (map r columns)) (filter (quals_hold ops quals) rows)"

section \<open>Example data\<close>

text \<open>
  The table \<open>t(id PK, v)\<close> of the specification's scenarios with three rows, four diff
  objects (an update of row 3, an update of row 1, the deletion of row 2 and its
  re-insertion), equality as the only operator, unknown on a \<open>NULL\<close> cell, and the same
  table without a primary key.
\<close>

definition example_row :: "int \<Rightarrow> int \<Rightarrow> int row" where
  "example_row i v = (\<lambda>_. None)(''id'' := Some i, ''v'' := Some v)"


definition example_ops :: "int operators" where
  "example_ops opr cell v =
    (case cell of None \<Rightarrow> None | Some x \<Rightarrow> Some (opr = ''='' \<and> x = v))"

definition example_db :: "int database" where
  "example_db =
    \<lparr>snap_rows = [example_row 1 10, example_row 2 20, example_row 3 30],
     object_diff =
       (\<lambda>object_id.
          if object_id = ''d1'' then
            [\<lparr>change_key = [Some 3], action = UPDATE, payload = [(''v'', Some 10)]\<rparr>]
          else if object_id = ''d2'' then
            [\<lparr>change_key = [Some 1], action = UPDATE, payload = [(''v'', Some 99)]\<rparr>]
          else if object_id = ''d3'' then
            [\<lparr>change_key = [Some 2], action = DELETE, payload = []\<rparr>]
          else if object_id = ''d4'' then
            [\<lparr>change_key = [Some 2], action = INSERT, payload = [(''v'', Some 77)]\<rparr>]
          else []),
     operator_holds = example_ops\<rparr>"

definition example_catalog :: catalog where
  "example_catalog =
    \<lparr>primary_keys = [(''id'', ''integer'')],
     column_names_types = [(''id'', ''integer''), (''v'', ''integer'')]\<rparr>"

definition example_catalog_no_pk :: catalog where
  "example_catalog_no_pk =
    \<lparr>primary_keys = [], column_names_types = [(''id'', ''integer''), (''v'', ''integer'')]\<rparr>"

definition example_fdw :: "string list \<Rightarrow> fdw" where
  "example_fdw chain = \<lparr>meta_schema = ''splitgraph_meta'', snap = ''s0'', diff_chain = chain\<rparr>"

text \<open>Which statements are step 1, applications of a diff, or qual filters.\<close>

fun is_insert_updated :: "'v statement \<Rightarrow> bool" where
  "is_insert_updated (InsertUpdatedRows schema staging snp object_id ri_cols all_cols) = True"
| "is_insert_updated s = False"



section \<open>Notions of the soundness argument\<close>

text \<open>
  A row is never updated by the chain when no \<open>UPDATE\<close> record of any of its diffs has
  the row's change key. The rows the staging table may lack, and the rows it holds with
  \<open>sg_meta_keep_pk = FALSE\<close>, are stable in this sense unless the quals read change-key
  columns only.
\<close>

definition never_updated :: "string list \<Rightarrow> 'v change list list \<Rightarrow> 'v row \<Rightarrow> bool" where
  "never_updated kc ds r =
    (\<forall>d\<in>set ds. \<forall>c\<in>set d. action c = UPDATE \<longrightarrow> change_key c \<noteq> key_of kc r)"

definition stable_row :: "bool \<Rightarrow> string list \<Rightarrow> 'v change list list \<Rightarrow> 'v row \<Rightarrow> bool" where
  "stable_row pk_only kc ds r = (pk_only \<or> never_updated kc ds r)"

text \<open>
  The invariant between the staging table \<open>t\<close> and the materialized table \<open>m\<close>: the rows
  of \<open>m\<close> are those of \<open>t\<close> and hidden rows, which do not satisfy the quals and are
  stable; the rows of \<open>t\<close> with \<open>sg_meta_keep_pk = FALSE\<close> satisfy the quals and are stable.
\<close>

definition staging_invariant ::
  "('v row \<Rightarrow> bool) \<Rightarrow> ('v row \<Rightarrow> bool) \<Rightarrow> ('v row \<times> bool) list \<Rightarrow> 'v row list \<Rightarrow> bool" where
  "staging_invariant holds stb t m =
    ((\<exists>hidden. mset m = mset (map fst t) + hidden \<and> (\<forall>r\<in>#hidden. \<not> holds r \<and> stb r))
     \<and> (\<forall>(r, keep_pk)\<in>set t. \<not> keep_pk \<longrightarrow> holds r \<and> stb r))"

section \<open>Configuration defaulting\<close>

lemma prepare_loop_other:
  "prepare_loop cfg keys result = Inr res \<Longrightarrow> k \<notin> set keys \<Longrightarrow> res k = result k"
proof (induction keys arbitrary: result)
  case Nil
  then show ?case by simp
next
  case (Cons key keys)
  from Cons.prems(1) obtain r1 where
    r1: "prepare_key cfg key result = Inr r1" and rest: "prepare_loop cfg keys r1 = Inr res"
    by (auto split: sum.splits)
  from Cons.prems(2) have "k \<noteq> key" and "k \<notin> set keys" by auto
  from r1 \<open>k \<noteq> key\<close> have "r1 k = result k"
    by (auto simp: prepare_key_def split: option.splits sum.splits)
  with Cons.IH[OF rest \<open>k \<notin> set keys\<close>] show ?case by simp
qed

lemma prepare_key_default:
  assumes "prepare_key cfg key result = Inr r1" and "map_of ENGINE_CONFIG_DEFAULTS key = Some d"
  shows "r1 key = (case cfg key of Some v \<Rightarrow> Some v | None \<Rightarrow> cfg d)"
  using assms by (auto simp: prepare_key_def split: option.splits sum.splits)

lemma prepare_loop_default:
  assumes "prepare_loop cfg (pre @ key # post) result = Inr res"
    and "key \<notin> set post"
    and "map_of ENGINE_CONFIG_DEFAULTS key = Some d"
  shows "res key = (case cfg key of Some v \<Rightarrow> Some v | None \<Rightarrow> cfg d)"
  using assms
proof (induction pre arbitrary: result)
  case Nil
  then obtain r1 where
    r1: "prepare_key cfg key result = Inr r1" and rest: "prepare_loop cfg post r1 = Inr res"
    by (auto split: sum.splits)
  from prepare_loop_other[OF rest Nil.prems(2)] prepare_key_default[OF r1 Nil.prems(3)]
  show ?case by simp
next
  case (Cons a pre)
  then obtain r1 where "prepare_loop cfg (pre @ key # post) r1 = Inr res"
    by (auto split: sum.splits)
  from Cons.IH[OF this Cons.prems(2) Cons.prems(3)] show ?case .
qed

text \<open>
  C8. In the engine configuration that \<open>_prepare_engine_config\<close> produces,
  \<open>SG_ENGINE_FDW_HOST\<close> is the input's \<open>SG_ENGINE_FDW_HOST\<close> when the input has that key and
  the input's \<open>SG_ENGINE_HOST\<close> otherwise; \<open>SG_ENGINE_FDW_PORT\<close> likewise falls back to
  \<open>SG_ENGINE_PORT\<close>.
\<close>

theorem C8_fdw_defaults:
  assumes "prepare_engine_config cfg = Inr res"
  shows "res ''SG_ENGINE_FDW_HOST'' =
           (case cfg ''SG_ENGINE_FDW_HOST'' of Some v \<Rightarrow> Some v | None \<Rightarrow> cfg ''SG_ENGINE_HOST'')
       \<and> res ''SG_ENGINE_FDW_PORT'' =
           (case cfg ''SG_ENGINE_FDW_PORT'' of Some v \<Rightarrow> Some v | None \<Rightarrow> cfg ''SG_ENGINE_PORT'')"
proof -
  have split_host: "ENGINE_SPECIFIC_CONFIG =
      [''SG_ENGINE_HOST'', ''SG_ENGINE_PORT'', ''SG_ENGINE_USER'', ''SG_ENGINE_PWD'',
       ''SG_ENGINE_DB_NAME'', ''SG_ENGINE_POSTGRES_DB_NAME'', ''SG_ENGINE_ADMIN_USER'',
       ''SG_ENGINE_ADMIN_PWD''] @ ''SG_ENGINE_FDW_HOST'' #
      [''SG_ENGINE_FDW_PORT'', ''SG_ENGINE_OBJECT_PATH'', ''SG_NAMESPACE'']"
    by (simp add: ENGINE_SPECIFIC_CONFIG_def)
  have split_port: "ENGINE_SPECIFIC_CONFIG =
      [''SG_ENGINE_HOST'', ''SG_ENGINE_PORT'', ''SG_ENGINE_USER'', ''SG_ENGINE_PWD'',
       ''SG_ENGINE_DB_NAME'', ''SG_ENGINE_POSTGRES_DB_NAME'', ''SG_ENGINE_ADMIN_USER'',
       ''SG_ENGINE_ADMIN_PWD'', ''SG_ENGINE_FDW_HOST''] @ ''SG_ENGINE_FDW_PORT'' #
      [''SG_ENGINE_OBJECT_PATH'', ''SG_NAMESPACE'']"
    by (simp add: ENGINE_SPECIFIC_CONFIG_def)
  have host: "res ''SG_ENGINE_FDW_HOST'' =
      (case cfg ''SG_ENGINE_FDW_HOST'' of Some v \<Rightarrow> Some v | None \<Rightarrow> cfg ''SG_ENGINE_HOST'')"
    by (rule prepare_loop_default[where pre = "[''SG_ENGINE_HOST'', ''SG_ENGINE_PORT'',
          ''SG_ENGINE_USER'', ''SG_ENGINE_PWD'', ''SG_ENGINE_DB_NAME'',
          ''SG_ENGINE_POSTGRES_DB_NAME'', ''SG_ENGINE_ADMIN_USER'', ''SG_ENGINE_ADMIN_PWD'']"
          and post = "[''SG_ENGINE_FDW_PORT'', ''SG_ENGINE_OBJECT_PATH'', ''SG_NAMESPACE'']"
          and result = Map.empty])
       (use assms split_host in \<open>simp_all add: prepare_engine_config_def ENGINE_CONFIG_DEFAULTS_def\<close>)
  have port: "res ''SG_ENGINE_FDW_PORT'' =
      (case cfg ''SG_ENGINE_FDW_PORT'' of Some v \<Rightarrow> Some v | None \<Rightarrow> cfg ''SG_ENGINE_PORT'')"
    by (rule prepare_loop_default[where pre = "[''SG_ENGINE_HOST'', ''SG_ENGINE_PORT'',
          ''SG_ENGINE_USER'', ''SG_ENGINE_PWD'', ''SG_ENGINE_DB_NAME'',
          ''SG_ENGINE_POSTGRES_DB_NAME'', ''SG_ENGINE_ADMIN_USER'', ''SG_ENGINE_ADMIN_PWD'',
          ''SG_ENGINE_FDW_HOST'']"
          and post = "[''SG_ENGINE_OBJECT_PATH'', ''SG_NAMESPACE'']"
          and result = Map.empty])
       (use assms split_port in \<open>simp_all add: prepare_engine_config_def ENGINE_CONFIG_DEFAULTS_def\<close>)
  from host port show ?thesis by simp
qed

lemma prepare_key_returns:
  "(\<exists>r1. prepare_key cfg key result = Inr r1) \<longleftrightarrow>
     (\<forall>d. map_of ENGINE_CONFIG_DEFAULTS key = Some d \<longrightarrow> cfg d \<noteq> None)"
  by (auto simp: prepare_key_def split: option.splits)

lemma prepare_loop_returns:
  "(\<exists>res. prepare_loop cfg keys result = Inr res) \<longleftrightarrow>
     (\<forall>key\<in>set keys. \<forall>d. map_of ENGINE_CONFIG_DEFAULTS key = Some d \<longrightarrow> cfg d \<noteq> None)"
proof (induction keys arbitrary: result)
  case Nil
  then show ?case by simp
next
  case (Cons key keys)
  show ?case
  proof (cases "prepare_key cfg key result")
    case (Inl e)
    with prepare_key_returns[of cfg key result] show ?thesis by auto
  next
    case (Inr r1)
    with prepare_key_returns[of cfg key result] Cons.IH[of r1] show ?thesis by auto
  qed
qed

lemma prepare_engine_config_returns:
  "(\<exists>res. prepare_engine_config cfg = Inr res) \<longleftrightarrow>
     cfg ''SG_ENGINE_HOST'' \<noteq> None \<and> cfg ''SG_ENGINE_PORT'' \<noteq> None"
  unfolding prepare_engine_config_def prepare_loop_returns
  by (simp add: ENGINE_SPECIFIC_CONFIG_def ENGINE_CONFIG_DEFAULTS_def)

theorem C8_fdw_defaults_witness:
  "\<exists>res. prepare_engine_config
            [''SG_ENGINE_HOST'' \<mapsto> ''localhost'', ''SG_ENGINE_PORT'' \<mapsto> ''5432'',
             ''SG_ENGINE_FDW_PORT'' \<mapsto> ''6432''] = Inr res
       \<and> res ''SG_ENGINE_FDW_HOST'' = Some ''localhost''
       \<and> res ''SG_ENGINE_FDW_PORT'' = Some ''6432''"
proof -
  let ?cfg = "[''SG_ENGINE_HOST'' \<mapsto> ''localhost'', ''SG_ENGINE_PORT'' \<mapsto> ''5432'',
               ''SG_ENGINE_FDW_PORT'' \<mapsto> ''6432'']"
  have "\<exists>res. prepare_engine_config ?cfg = Inr res"
    by (simp add: prepare_engine_config_returns)
  then obtain res where res: "prepare_engine_config ?cfg = Inr res" ..
  from C8_fdw_defaults[OF res] res show ?thesis by simp
qed

section \<open>Savepoint scoping\<close>

text \<open>
  C7 as stated fails: when the body's failing statement was rolled back to the savepoint
  (the stack no longer ends with \<open>name\<close>), the \<open>finally\<close> block runs no
  \<open>RELEASE SAVEPOINT\<close>; the only statement the context manager issues is \<open>SAVEPOINT\<close>.
\<close>

theorem C7_release_counterexample:
  "savepoint run_sql_ok ''sp'' body_rolled_back \<lparr>savepoint_stack = [''outer'']\<rparr> =
     ([savepoint_stmt ''sp''], Some (DatabaseError ''duplicate key''),
      \<lparr>savepoint_stack = [''outer'']\<rparr>)
   \<and> release_stmt ''sp'' \<notin> set [savepoint_stmt ''sp'']"
  by (simp add: savepoint_def run_sql_ok_def body_rolled_back_def savepoint_stmt_def
      release_stmt_def)

text \<open>
  C7, amended. \<open>savepoint(name)\<close> passes \<open>SAVEPOINT name\<close> to \<open>run_sql\<close> on entry and pushes
  \<open>name\<close>. On every exit of the body, normal or by an exception, it then passes
  \<open>RELEASE SAVEPOINT name\<close> to \<open>run_sql\<close> exactly when the stack is non-empty and ends with
  \<open>name\<close>, after popping it; otherwise it issues nothing more and leaves the engine and the
  outcome as the body left them. Nothing is asked of \<open>run_sql\<close> for this, whatever it does to
  the engine. Only the last sentence has a condition: when \<open>run_sql\<close> leaves the stack alone
  and the body exits with the stack it was given, the release is issued and the stack on
  exit is the stack on entry.
\<close>

theorem C7_savepoint_scoped:
  assumes "run_sql (savepoint_stmt name) s = (None, s1)"
    and "body (s1\<lparr>savepoint_stack := savepoint_stack s1 @ [name]\<rparr>) = (r, s3)"
  shows "fst (savepoint run_sql name body s) =
           savepoint_stmt name #
           (if savepoint_stack s3 \<noteq> [] \<and> last (savepoint_stack s3) = name
            then [release_stmt name] else [])
       \<and> (savepoint_stack s3 \<noteq> [] \<and> last (savepoint_stack s3) = name \<longrightarrow>
            snd (savepoint run_sql name body s) =
              ((case fst (run_sql (release_stmt name)
                            (s3\<lparr>savepoint_stack := butlast (savepoint_stack s3)\<rparr>)) of
                  Some e \<Rightarrow> Some e
                | None \<Rightarrow> r),
               snd (run_sql (release_stmt name)
                      (s3\<lparr>savepoint_stack := butlast (savepoint_stack s3)\<rparr>))))
       \<and> (\<not> (savepoint_stack s3 \<noteq> [] \<and> last (savepoint_stack s3) = name) \<longrightarrow>
            snd (savepoint run_sql name body s) = (r, s3))
       \<and> ((\<forall>stmt t. savepoint_stack (snd (run_sql stmt t)) = savepoint_stack t)
            \<and> savepoint_stack s3 = savepoint_stack s1 @ [name] \<longrightarrow>
            release_stmt name \<in> set (fst (savepoint run_sql name body s))
            \<and> savepoint_stack (snd (snd (savepoint run_sql name body s))) = savepoint_stack s)"
proof -
  let ?guard = "savepoint_stack s3 \<noteq> [] \<and> last (savepoint_stack s3) = name"
  let ?t = "s3\<lparr>savepoint_stack := butlast (savepoint_stack s3)\<rparr>"
  obtain r' s5 where rel: "run_sql (release_stmt name) ?t = (r', s5)"
    by (cases "run_sql (release_stmt name) ?t")
  have released: "savepoint run_sql name body s =
      ([savepoint_stmt name, release_stmt name], (case r' of Some e \<Rightarrow> Some e | None \<Rightarrow> r), s5)"
    if ?guard
    using that assms rel by (cases r') (simp_all add: savepoint_def)
  have kept: "savepoint run_sql name body s = ([savepoint_stmt name], r, s3)" if "\<not> ?guard"
    using that assms by (auto simp: savepoint_def)
  have first: "fst (savepoint run_sql name body s) =
      savepoint_stmt name # (if ?guard then [release_stmt name] else [])"
    using released kept by (cases ?guard) simp_all
  have second: "?guard \<longrightarrow>
      snd (savepoint run_sql name body s) =
        ((case fst (run_sql (release_stmt name) ?t) of Some e \<Rightarrow> Some e | None \<Rightarrow> r),
         snd (run_sql (release_stmt name) ?t))"
    using released rel by simp
  have third: "\<not> ?guard \<longrightarrow> snd (savepoint run_sql name body s) = (r, s3)"
    using kept by simp
  have fourth: "(\<forall>stmt t. savepoint_stack (snd (run_sql stmt t)) = savepoint_stack t)
      \<and> savepoint_stack s3 = savepoint_stack s1 @ [name] \<longrightarrow>
      release_stmt name \<in> set (fst (savepoint run_sql name body s))
      \<and> savepoint_stack (snd (snd (savepoint run_sql name body s))) = savepoint_stack s"
  proof
    assume h: "(\<forall>stmt t. savepoint_stack (snd (run_sql stmt t)) = savepoint_stack t)
      \<and> savepoint_stack s3 = savepoint_stack s1 @ [name]"
    then have keep: "\<And>stmt t. savepoint_stack (snd (run_sql stmt t)) = savepoint_stack t"
      and st: "savepoint_stack s3 = savepoint_stack s1 @ [name]"
      by blast+
    from st have g: ?guard by simp
    from keep[of "savepoint_stmt name" s] assms(1) have s1: "savepoint_stack s1 = savepoint_stack s"
      by simp
    from keep[of "release_stmt name" ?t] rel
    have s5: "savepoint_stack s5 = butlast (savepoint_stack s3)" by simp
    from st s5 s1 have "savepoint_stack s5 = savepoint_stack s" by simp
    with released[OF g] show "release_stmt name \<in> set (fst (savepoint run_sql name body s))
      \<and> savepoint_stack (snd (snd (savepoint run_sql name body s))) = savepoint_stack s"
      by simp
  qed
  from first second third fourth show ?thesis by blast
qed

theorem C7_savepoint_scoped_witness:
  "fst (savepoint run_sql_ok ''sp'' (\<lambda>t. (Some ValueError, t)) \<lparr>savepoint_stack = [''outer'']\<rparr>) =
     [savepoint_stmt ''sp'', release_stmt ''sp'']
   \<and> snd (savepoint run_sql_ok ''sp'' (\<lambda>t. (Some ValueError, t)) \<lparr>savepoint_stack = [''outer'']\<rparr>) =
       (Some ValueError, \<lparr>savepoint_stack = [''outer'']\<rparr>)
   \<and> savepoint_stack (snd (snd (savepoint run_sql_ok ''sp'' (\<lambda>t. (Some ValueError, t))
        \<lparr>savepoint_stack = [''outer'']\<rparr>))) = [''outer'']"
proof -
  have b:"run_sql_ok (savepoint_stmt ''sp'') \<lparr>savepoint_stack = [''outer'']\<rparr> =
      (None, \<lparr>savepoint_stack = [''outer'']\<rparr>)"
    by (simp add: run_sql_ok_def)
  have c: "(\<lambda>t. (Some ValueError, t))
      (\<lparr>savepoint_stack = [''outer'']\<rparr>\<lparr>savepoint_stack :=
          savepoint_stack \<lparr>savepoint_stack = [''outer'']\<rparr> @ [''sp'']\<rparr>) =
      (Some ValueError, \<lparr>savepoint_stack = [''outer'', ''sp'']\<rparr>)"
    by simp
  from C7_savepoint_scoped[where run_sql = run_sql_ok and name = "''sp''"
      and body = "\<lambda>t. (Some ValueError, t)" and s = "\<lparr>savepoint_stack = [''outer'']\<rparr>"
      and ?s1.0 = "\<lparr>savepoint_stack = [''outer'']\<rparr>" and r = "Some ValueError"
      and ?s3.0 = "\<lparr>savepoint_stack = [''outer'', ''sp'']\<rparr>", OF b c]
  show ?thesis by (simp add: run_sql_ok_def)
qed

section \<open>Scoped engine override\<close>

text \<open>
  C9. For every engine \<open>e\<close> and every body, whether it returns or raises, the body starts
  with \<open>_ENGINE = e\<close>, and after \<open>switch_engine(e)\<close> exits \<open>_ENGINE\<close> has the value it had
  before entry; the outcome is the body's.
\<close>

theorem C9_switch_engine_restores:
  "g_ENGINE (switch_engine_enter e s) = EngineObject e
   \<and> g_ENGINE (snd (switch_engine e body s)) = g_ENGINE s
   \<and> fst (switch_engine e body s) = fst (body (switch_engine_enter e s))"
  by (simp add: switch_engine_def switch_engine_enter_def split: prod.splits)

theorem C9_switch_engine_restores_witness:
  "g_ENGINE (snd (switch_engine (7::nat) (\<lambda>t. (Some ValueError, t\<lparr>g_ENGINE := EngineName ''other''\<rparr>))
      \<lparr>g_ENGINE = EngineName ''LOCAL'', g_ENGINES = Map.empty\<rparr>)) = EngineName ''LOCAL''
   \<and> fst (switch_engine (7::nat) (\<lambda>t. (Some ValueError, t\<lparr>g_ENGINE := EngineName ''other''\<rparr>))
      \<lparr>g_ENGINE = EngineName ''LOCAL'', g_ENGINES = Map.empty\<rparr>) = Some ValueError"
  using C9_switch_engine_restores[of 7 "\<lparr>g_ENGINE = EngineName ''LOCAL'', g_ENGINES = Map.empty\<rparr>"
      "\<lambda>t. (Some ValueError, t\<lparr>g_ENGINE := EngineName ''other''\<rparr>)"]
  by (simp add: switch_engine_enter_def)

section \<open>Qual translation\<close>

lemma as_string_sql_join:
  "concat (map as_string (sql_join sep xs)) = str_join sep (map as_string xs)"
  by (induction sep xs rule: sql_join.induct) simp_all

lemma quals_loop_eq:
  "quals_loop quals sql_objs vals =
     (sql_objs @ map (fst \<circ> qual_to_pg) quals, vals @ concat (map (snd \<circ> qual_to_pg) quals))"
  by (induction quals arbitrary: sql_objs vals) (simp_all split: prod.splits)

lemma as_string_qual_to_pg: "as_string (fst (qual_to_pg q)) = qual_fragment q"
  by (cases q) (simp_all add: map_replicate_const split: any_or_all.splits)

lemma snd_qual_to_pg: "snd (qual_to_pg q) = qual_bound_values q"
  by (cases q) simp_all

text \<open>
  C6. For every list of quals, the statement text of \<open>_quals_to_postgres\<close> is the per-qual
  fragments joined by \<open>AND\<close>, and its values are the quals' bound values concatenated in qual
  order: one value for a scalar qual, \<open>len(values)\<close> values for a list qual.
\<close>

theorem C6_quals_to_postgres:
  "as_string (fst (quals_to_postgres quals)) = str_join '' AND '' (map qual_fragment quals)
   \<and> snd (quals_to_postgres quals) = concat (map qual_bound_values quals)
   \<and> length (qual_bound_values (ScalarQual f opr v)) = 1
   \<and> length (qual_bound_values (ListQual f opr aa vs)) = length vs"
proof -
  have "as_string (fst (quals_to_postgres quals)) =
      str_join '' AND '' (map as_string (map (fst \<circ> qual_to_pg) quals))"
    by (simp add: quals_to_postgres_def quals_loop_eq as_string_sql_join)
  also have "map as_string (map (fst \<circ> qual_to_pg) quals) = map qual_fragment quals"
    by (simp add: as_string_qual_to_pg)
  finally have frag: "as_string (fst (quals_to_postgres quals)) =
      str_join '' AND '' (map qual_fragment quals)" .
  have "snd \<circ> qual_to_pg = (qual_bound_values :: 'a qual \<Rightarrow> 'a list)"
    by (rule ext) (simp add: snd_qual_to_pg)
  then have vals: "snd (quals_to_postgres quals) = concat (map qual_bound_values quals)"
    by (simp add: quals_to_postgres_def quals_loop_eq)
  from frag vals show ?thesis by simp
qed

theorem C6_quals_to_postgres_witness:
  "as_string (fst (quals_to_postgres
      [ScalarQual ''id'' ''='' (2::int), ListQual ''v'' ''<'' QALL [1, 2, 3]])) =
     quote_ident ''id'' @ '' = %s AND '' @ quote_ident ''v'' @ '' < ALL(ARRAY[%s,%s,%s])''
   \<and> snd (quals_to_postgres
      [ScalarQual ''id'' ''='' (2::int), ListQual ''v'' ''<'' QALL [1, 2, 3]]) = [2, 1, 2, 3]"
  using C6_quals_to_postgres[of "[ScalarQual ''id'' ''='' (2::int), ListQual ''v'' ''<'' QALL [1, 2, 3]]"]
  by (simp add: numeral_3_eq_3)

section \<open>DDL canonicalization\<close>

lemma sort_permutation: "mset xs = mset ys \<Longrightarrow> sort xs = sort ys"
  for xs ys :: "('a::linorder) list"
  by (metis properties_for_sort sorted_sort mset_sort)

lemma as_string_sql_add: "as_string (sql_add a b) = as_string a @ as_string b"
  by (induction a b rule: sql_add.induct) simp_all

lemma format_scan_literal:
  "brace_free s \<Longrightarrow> format_scan (s @ rest) lit args out = format_scan rest (lit @ s) args out"
  by (induction s arbitrary: lit) (auto simp: brace_free_def)

lemma text_emit: "concat (map as_string (emit lit)) = lit"
  by (simp add: emit_def)

lemma format_scan_literal_end:
  "brace_free s \<Longrightarrow> format_scan s lit args out = Inr (out, lit @ s, args)"
  using format_scan_literal[of s "[]" lit args out] by simp

lemma format_scan_field:
  "format_scan (CHR ''{'' # CHR ''}'' # rest) lit (a # args) out =
     format_scan rest [] args (out @ emit lit @ [a])"
  by simp

lemma format_scan_columns:
  assumes "\<forall>e\<in>set specs. brace_free (col_type e)"
  shows "\<exists>out' lit'.
      format_scan (str_join '','' (map (\<lambda>e. ''{} '' @ col_type e @ '' '') specs)) lit
        (map (\<lambda>e. Identifier (col_name e)) specs @ args) out = Inr (out', lit', args)
      \<and> concat (map as_string out') @ lit' =
          concat (map as_string out) @ lit
          @ str_join '','' (map (\<lambda>e. quote_ident (col_name e) @ '' '' @ col_type e @ '' '') (specs :: schema_entry list))"
  using assms
proof (induction specs arbitrary: lit out rule: induct_list012)
  case 1
  then show ?case by simp
next
  case (2 e)
  define cname ctype where "cname = col_name e" and "ctype = col_type e"
  note e = this[symmetric]
  with 2 have bf: "brace_free (CHR '' '' # ctype @ '' '')" by (simp add: brace_free_def)
  have "format_scan (CHR ''{'' # CHR ''}'' # CHR '' '' # ctype @ '' '') lit
      (Identifier cname # args) out =
      Inr (out @ emit lit @ [Identifier cname], [] @ CHR '' '' # ctype @ '' '', args)"
    by (simp only: format_scan_field format_scan_literal_end[OF bf])
  then show ?case
    by (simp add: e text_emit)
next
  case (3 e e' es)
  define cname ctype where "cname = col_name e" and "ctype = col_type e"
  note e = this[symmetric]
  with 3 have bf: "brace_free (CHR '' '' # ctype @ '' '' @ '','')" by (simp add: brace_free_def)
  let ?rest = "str_join '','' (map (\<lambda>e. ''{} '' @ col_type e @ '' '') (e' # es))"
  let ?args = "map (\<lambda>e. Identifier (col_name e)) (e' # es) @ args"
  from 3 have rest: "\<forall>e\<in>set (e' # es). brace_free (col_type e)" by simp
  from "3.IH"(2)[OF rest, of "[] @ CHR '' '' # ctype @ '' '' @ '',''"
      "out @ emit lit @ [Identifier cname]"]
  obtain out' lit' where
    scan: "format_scan ?rest ([] @ CHR '' '' # ctype @ '' '' @ '','') ?args
        (out @ emit lit @ [Identifier cname]) = Inr (out', lit', args)"
    and tx: "concat (map as_string out') @ lit' =
        concat (map as_string (out @ emit lit @ [Identifier cname]))
        @ ([] @ CHR '' '' # ctype @ '' '' @ '','')
        @ str_join '','' (map (\<lambda>e. quote_ident (col_name e) @ '' '' @ col_type e @ '' '') (e' # es))"
    by blast
  have "format_scan (CHR ''{'' # CHR ''}'' # (CHR '' '' # ctype @ '' '' @ '','') @ ?rest) lit
      (Identifier cname # ?args) out = Inr (out', lit', args)"
    by (simp only: format_scan_field format_scan_literal[OF bf] scan)
  with tx show ?case
    by (auto simp: e text_emit)
qed

lemma sql_format_columns:
  assumes "\<forall>e\<in>set specs. brace_free (col_type e)"
  shows "\<exists>columns.
      sql_format ('' ('' @ str_join '','' (map (\<lambda>e. ''{} '' @ col_type e @ '' '') specs))
        (map (\<lambda>e. Identifier (col_name e)) specs) = Inr columns
      \<and> as_string columns =
          '' ('' @ str_join '','' (map (\<lambda>e. quote_ident (col_name e) @ '' '' @ col_type e @ '' '') (specs :: schema_entry list))"
proof -
  have bf: "brace_free '' (''" by (simp add: brace_free_def)
  from format_scan_columns[OF assms, of "[] @ '' (''" "[]" "[]"]
  obtain out' lit' where
    scan: "format_scan (str_join '','' (map (\<lambda>e. ''{} '' @ col_type e @ '' '') specs))
        ([] @ '' ('') (map (\<lambda>e. Identifier (col_name e)) specs) [] = Inr (out', lit', [])"
    and tx: "concat (map as_string out') @ lit' = '' (''
        @ str_join '','' (map (\<lambda>e. quote_ident (col_name e) @ '' '' @ col_type e @ '' '') specs)"
    by auto
  have "format_scan ('' ('' @ str_join '','' (map (\<lambda>e. ''{} '' @ col_type e @ '' '') specs)) []
      (map (\<lambda>e. Identifier (col_name e)) specs) [] = Inr (out', lit', [])"
    by (simp only: format_scan_literal[OF bf] scan)
  with tx show ?thesis
    by (simp add: sql_format_def text_emit)
qed

lemma sql_format_target:
  "sql_format ''{}.{}'' [a, b] = Inr (Composed [a, SQL ''.'', b])"
  by (simp add: sql_format_def emit_def)

lemma sorted_ordinals: "sorted (map col_ordinal (sort (spec :: schema_entry list)))"
proof -
  have "sorted_wrt (\<lambda>x y. x \<le> y) (sort spec)"
    using sorted_sort[of spec] by simp
  then have "sorted_wrt (\<lambda>x y. col_ordinal x \<le> col_ordinal y) (sort spec)"
    by (rule sorted_wrt_mono_rel[rotated]) (auto simp: col_ordinal_def less_eq_prod_def)
  then show ?thesis by (simp add: sorted_map)
qed

lemma dump_table_creation_text:
  assumes bf: "\<forall>e\<in>set spec. brace_free (col_type e)"
    and tgt: "temporary \<or> schema \<noteq> None"
  shows "\<exists>q. dump_table_creation schema table spec unlogged temporary = Inr q
      \<and> as_string q = create_table_text schema table (sort spec) unlogged temporary"
proof -
  let ?sp = "sort spec"
  from bf have "\<forall>e\<in>set ?sp. brace_free (col_type e)" by simp
  from sql_format_columns[OF this] obtain columns where
    cols: "sql_format ('' ('' @ str_join '','' (map (\<lambda>e. ''{} '' @ col_type e @ '' '') ?sp))
        (map (\<lambda>e. Identifier (col_name e)) ?sp) = Inr columns"
    and cols_text: "as_string columns =
        '' ('' @ str_join '','' (map (\<lambda>e. quote_ident (col_name e) @ '' '' @ col_type e @ '' '') ?sp)"
    by blast
  have pk_text: "concat (map as_string (sql_join '','' (map (\<lambda>c. Composed [Identifier c])
        (map col_name (filter col_is_pk ?sp))))) =
      str_join '','' (map (\<lambda>e. quote_ident (col_name e)) (filter col_is_pk ?sp))"
    by (simp add: as_string_sql_join comp_def)
  have pk_iff: "map col_name (filter col_is_pk ?sp) \<noteq> [] \<longleftrightarrow> list_ex col_is_pk ?sp"
    by (simp add: filter_empty_conv list_ex_iff)
  show ?thesis
  proof (cases temporary)
    case True
    then show ?thesis
      using cols cols_text pk_text pk_iff
      by (simp add: dump_table_creation_def create_table_text_def Let_def as_string_sql_add)
  next
    case False
    with tgt obtain sch where sch: "schema = Some sch" by auto
    with False show ?thesis
      using cols cols_text pk_text pk_iff
      by (simp add: dump_table_creation_def create_table_text_def Let_def as_string_sql_add
          sql_format_target)
  qed
qed

text \<open>
  C10. \<open>dump_table_creation\<close> sorts the schema spec first, so two specs that are
  permutations of each other give the identical result. Whenever the column types contain
  no brace (every type name of \<open>information_schema\<close>) and a schema is given or the table is
  temporary, a statement is produced and its text lists the columns of the sorted spec, in
  ordinal order, and has the \<open>PRIMARY KEY\<close> clause exactly when some entry has \<open>is_pk\<close>.
\<close>

theorem C10_dump_table_creation_canonical:
  "(mset spec1 = mset spec2 \<longrightarrow>
      dump_table_creation schema table spec1 unlogged temporary =
      dump_table_creation schema table spec2 unlogged temporary)
   \<and> ((\<forall>e\<in>set spec1. brace_free (col_type e)) \<and> (temporary \<or> schema \<noteq> None) \<longrightarrow>
        (\<exists>q. dump_table_creation schema table spec1 unlogged temporary = Inr q
           \<and> as_string q = create_table_text schema table (sort spec1) unlogged temporary))
   \<and> sorted (map col_ordinal (sort spec1))
   \<and> (list_ex col_is_pk (sort spec1) \<longleftrightarrow> (\<exists>e\<in>set spec1. col_is_pk e))"
proof -
  have perm: "mset spec1 = mset spec2 \<longrightarrow>
      dump_table_creation schema table spec1 unlogged temporary =
      dump_table_creation schema table spec2 unlogged temporary"
  proof
    assume "mset spec1 = mset spec2"
    then have "sort spec1 = sort spec2" by (rule sort_permutation)
    then show "dump_table_creation schema table spec1 unlogged temporary =
      dump_table_creation schema table spec2 unlogged temporary"
      by (simp add: dump_table_creation_def)
  qed
  have pk: "list_ex col_is_pk (sort spec1) \<longleftrightarrow> (\<exists>e\<in>set spec1. col_is_pk e)"
    by (simp add: list_ex_iff)
  from perm dump_table_creation_text[of spec1 temporary schema table unlogged]
    sorted_ordinals[of spec1] pk
  show ?thesis by blast
qed

theorem C10_dump_table_creation_canonical_witness:
  "dump_table_creation (Some ''s'') ''t''
      [(2, ''v'', ''text'', False), (1, ''id'', ''integer'', True)] False False =
   dump_table_creation (Some ''s'') ''t''
      [(1, ''id'', ''integer'', True), (2, ''v'', ''text'', False)] False False
   \<and> (\<exists>q. dump_table_creation (Some ''s'') ''t''
          [(2, ''v'', ''text'', False), (1, ''id'', ''integer'', True)] False False = Inr q
        \<and> as_string q =
            ''CREATE  TABLE '' @ quote_ident ''s'' @ ''.'' @ quote_ident ''t'' @ '' (''
            @ quote_ident ''id'' @ '' integer ,'' @ quote_ident ''v'' @ '' text , PRIMARY KEY (''
            @ quote_ident ''id'' @ ''))'')"
proof -
  have a: "mset [(2::int, ''v'', ''text'', False), (1, ''id'', ''integer'', True)] =
      mset [(1, ''id'', ''integer'', True), (2, ''v'', ''text'', False)]"
    by (simp add: add_mset_commute)
  have b: "(\<forall>e\<in>set [(2::int, ''v'', ''text'', False), (1, ''id'', ''integer'', True)].
      brace_free (col_type e)) \<and> (False \<or> Some ''s'' \<noteq> None)"
    by (simp add: brace_free_def col_type_def)
  have c: "sort [(2::int, ''v'', ''text'', False), (1, ''id'', ''integer'', True)] =
      [(1, ''id'', ''integer'', True), (2, ''v'', ''text'', False)]"
    by (simp add: less_eq_prod_def)
  from C10_dump_table_creation_canonical[of
      "[(2, ''v'', ''text'', False), (1, ''id'', ''integer'', True)]"
      "[(1, ''id'', ''integer'', True), (2, ''v'', ''text'', False)]"
      "Some ''s''" "''t''" False False] a b
  obtain q where
    eq: "dump_table_creation (Some ''s'') ''t''
          [(2, ''v'', ''text'', False), (1, ''id'', ''integer'', True)] False False =
        dump_table_creation (Some ''s'') ''t''
          [(1, ''id'', ''integer'', True), (2, ''v'', ''text'', False)] False False"
    and q: "dump_table_creation (Some ''s'') ''t''
          [(2, ''v'', ''text'', False), (1, ''id'', ''integer'', True)] False False = Inr q"
    and tx: "as_string q = create_table_text (Some ''s'') ''t''
          (sort [(2, ''v'', ''text'', False), (1, ''id'', ''integer'', True)]) False False"
    by blast
  have "create_table_text (Some ''s'') ''t''
          (sort [(2, ''v'', ''text'', False), (1, ''id'', ''integer'', True)]) False False =
        ''CREATE  TABLE '' @ quote_ident ''s'' @ ''.'' @ quote_ident ''t'' @ '' (''
            @ quote_ident ''id'' @ '' integer ,'' @ quote_ident ''v'' @ '' text , PRIMARY KEY (''
            @ quote_ident ''id'' @ ''))''"
    by (simp add: c create_table_text_def col_name_def col_type_def col_is_pk_def)
  with tx have "as_string q =
        ''CREATE  TABLE '' @ quote_ident ''s'' @ ''.'' @ quote_ident ''t'' @ '' (''
            @ quote_ident ''id'' @ '' integer ,'' @ quote_ident ''v'' @ '' text , PRIMARY KEY (''
            @ quote_ident ''id'' @ ''))''"
    by (simp only:)
  with eq q show ?thesis by blast
qed

section \<open>The row stream\<close>

lemma format_scan_placeholders:
  "\<exists>out' lit'.
      format_scan (str_join '','' (map (\<lambda>_. ''{}'') columns)) lit
        (map Identifier columns @ args) out = Inr (out', lit', args)
      \<and> concat (map as_string out') @ lit' =
          concat (map as_string out) @ lit @ str_join '','' (map quote_ident columns)"
proof (induction columns arbitrary: lit out rule: induct_list012)
  case 1
  then show ?case by simp
next
  case (2 c)
  then show ?case by (simp add: text_emit)
next
  case (3 c c' cs)
  from "3.IH"(2)[of "'',''" "out @ emit lit @ [Identifier c]"]
  show ?case by (auto simp: text_emit)
qed

lemma select_query_text:
  "\<exists>q. select_query schema table columns = Inr q
     \<and> as_string q = ''SELECT '' @ str_join '','' (map quote_ident columns)
          @ '' FROM '' @ quote_ident schema @ ''.'' @ quote_ident table"
proof -
  from format_scan_placeholders[of columns "[]" "[]" "[]"]
  obtain out' lit' where
    "format_scan (str_join '','' (map (\<lambda>_. ''{}'') columns)) [] (map Identifier columns) [] =
       Inr (out', lit', [])"
    and "concat (map as_string out') @ lit' = str_join '','' (map quote_ident columns)"
    by auto
  then have cols: "sql_format (str_join '','' (map (\<lambda>_. ''{}'') columns)) (map Identifier columns) =
      Inr (Composed (out' @ emit lit'))"
    and cols_text: "as_string (Composed (out' @ emit lit')) = str_join '','' (map quote_ident columns)"
    by (simp_all add: sql_format_def text_emit)
  have from_clause: "sql_format '' FROM {}.{}'' [Identifier schema, Identifier table] =
      Inr (Composed [SQL '' FROM '', Identifier schema, SQL ''.'', Identifier table])"
    by (simp add: sql_format_def emit_def)
  show ?thesis
    unfolding select_query_def cols from_clause
    using cols_text by (simp add: as_string_sql_add del: sql_add.simps as_string.simps(3)) (simp add: quote_ident_def)
qed

lemma gen_take_suspended:
  "n \<le> length rows \<Longrightarrow>
   gen_take n result (g\<lparr>gen_state := Suspended rows\<rparr>) =
     ([], map (\<lambda>t. Yield (zip (gen_columns g) t)) (take n rows),
      g\<lparr>gen_state := Suspended (drop n rows)\<rparr>)"
proof (induction n arbitrary: rows)
  case 0
  then show ?case by simp
next
  case (Suc n)
  then obtain t rest where rows: "rows = t # rest" by (cases rows) auto
  with Suc.prems have "n \<le> length rest" by simp
  from Suc.IH[OF this] show ?case
    by (simp add: rows gen_next_def gen_loop_def)
qed

lemma gen_take_exhausted:
  "gen_take (Suc (length rows)) result (g\<lparr>gen_state := Suspended rows\<rparr>) =
     ([CursorClose] @ (if gen_drop_table g then [DeleteTable (gen_schema g) (gen_table g)] else [])
        @ [Rollback],
      map (\<lambda>t. Yield (zip (gen_columns g) t)) rows @ [Raise StopIteration],
      g\<lparr>gen_state := Finished\<rparr>)"
proof (induction rows)
  case Nil
  then show ?case by (simp add: gen_next_def gen_loop_def)
next
  case (Cons t rest)
  have "gen_next result (g\<lparr>gen_state := Suspended (t # rest)\<rparr>) =
      ([], Yield (zip (gen_columns g) t), g\<lparr>gen_state := Suspended rest\<rparr>)"
    by (simp add: gen_next_def gen_loop_def)
  with Cons.IH show ?case by simp
qed

lemma gen_next_not_started:
  assumes "gen_state g = NotStarted"
    and "select_query (gen_schema g) (gen_table g) (gen_columns g) = Inr q"
  shows "gen_next result g =
     (case gen_next result (g\<lparr>gen_state := Suspended result\<rparr>) of
        (calls, out, g') \<Rightarrow> (OpenCursor ''sg_layered_query_cursor'' # CursorExecute q # calls, out, g'))"
  using assms by (simp add: gen_next_def gen_loop_def split: list.splits)

lemma gen_take_not_started:
  assumes "gen_state g = NotStarted"
    and "select_query (gen_schema g) (gen_table g) (gen_columns g) = Inr q"
  shows "gen_take (Suc n) result g =
     (case gen_take (Suc n) result (g\<lparr>gen_state := Suspended result\<rparr>) of
        (calls, outs, g') \<Rightarrow> (OpenCursor ''sg_layered_query_cursor'' # CursorExecute q # calls, outs, g'))"
  using gen_next_not_started[OF assms, of result]
  by (simp split: prod.splits)

text \<open>
  C5 as stated fails: a caller that takes one row of two and closes the stream has made
  the generator open the cursor and execute the query, and nothing else; the table is not
  deleted and the transaction is not rolled back.
\<close>

theorem C5_cancel_counterexample:
  "fst (gen_take 1 [[Some (1::int)], [Some 2]] (run_select_from_staging ''m'' ''stg'' [''id''] True))
     @ fst (gen_close (snd (snd (gen_take 1 [[Some (1::int)], [Some 2]]
          (run_select_from_staging ''m'' ''stg'' [''id''] True))))) =
   [OpenCursor ''sg_layered_query_cursor'',
    CursorExecute (Composed [SQL ''SELECT '', Identifier ''id'', SQL '' FROM '', Identifier ''m'',
      SQL ''.'', Identifier ''stg''])]
   \<and> gen_state (snd (gen_close (snd (snd (gen_take 1 [[Some (1::int)], [Some 2]]
          (run_select_from_staging ''m'' ''stg'' [''id''] True)))))) = Finished"
  by (simp add: gen_close_def gen_next_def gen_loop_def run_select_from_staging_def
      select_query_def sql_format_def emit_def)

text \<open>
  C5, amended. The stream of a slow-path query (\<open>drop_table=True\<close>) releases its resources
  when the cursor is exhausted: the \<open>next\<close> that finds the cursor empty closes it, deletes
  the staging table and rolls the transaction back, once, and then raises \<open>StopIteration\<close>
  from the generator's body. When the caller closes or abandons the stream before that,
  after any number of rows, the generator makes no further call: nothing is deleted or
  rolled back by it.
\<close>

theorem C5_cursor_lifecycle:
  "\<exists>q. select_query schema table columns = Inr q
     \<and> gen_take (Suc (length result)) result (run_select_from_staging schema table columns True) =
         ([OpenCursor ''sg_layered_query_cursor'', CursorExecute q, CursorClose,
           DeleteTable schema table, Rollback],
          map (\<lambda>t. Yield (zip columns t)) result @ [Raise StopIteration],
          (run_select_from_staging schema table columns True)\<lparr>gen_state := Finished\<rparr>)
     \<and> (\<forall>n\<le>length result.
          fst (gen_take n result (run_select_from_staging schema table columns True))
            @ fst (gen_close (snd (snd (gen_take n result
                 (run_select_from_staging schema table columns True))))) =
          (if n = 0 then [] else [OpenCursor ''sg_layered_query_cursor'', CursorExecute q])
          \<and> fst (snd (gen_take n result (run_select_from_staging schema table columns True))) =
              map (\<lambda>t. Yield (zip columns t)) (take n result))"
proof -
  let ?g = "run_select_from_staging schema table columns True :: 'a select_gen"
  from select_query_text[of schema table columns] obtain q where
    q: "select_query schema table columns = Inr q" by blast
  have st: "gen_state ?g = NotStarted"
    and q': "select_query (gen_schema ?g) (gen_table ?g) (gen_columns ?g) = Inr q"
    using q by (simp_all add: run_select_from_staging_def)
  have susp: "?g\<lparr>gen_state := Suspended result\<rparr>\<lparr>gen_state := s\<rparr> = ?g\<lparr>gen_state := s\<rparr>" for s
    by simp
  have all: "gen_take (Suc (length result)) result ?g =
      ([OpenCursor ''sg_layered_query_cursor'', CursorExecute q, CursorClose,
        DeleteTable schema table, Rollback],
       map (\<lambda>t. Yield (zip columns t)) result @ [Raise StopIteration],
       ?g\<lparr>gen_state := Finished\<rparr>)"
    unfolding gen_take_not_started[OF st q'] gen_take_exhausted
    by (simp add: run_select_from_staging_def)
  have part: "fst (gen_take n result ?g) @ fst (gen_close (snd (snd (gen_take n result ?g)))) =
        (if n = 0 then [] else [OpenCursor ''sg_layered_query_cursor'', CursorExecute q])
      \<and> fst (snd (gen_take n result ?g)) = map (\<lambda>t. Yield (zip columns t)) (take n result)"
    if "n \<le> length result" for n
  proof (cases n)
    case 0
    then show ?thesis by (simp add: gen_close_def)
  next
    case (Suc m)
    with that have "Suc m \<le> length result" by simp
    from gen_take_suspended[OF this, of result ?g] show ?thesis
      unfolding Suc gen_take_not_started[OF st q']
      by (simp add: gen_close_def run_select_from_staging_def)
  qed
  from q all part show ?thesis by blast
qed

theorem C5_cursor_lifecycle_witness:
  "gen_take 3 [[Some (1::int)], [Some 2]] (run_select_from_staging ''m'' ''stg'' [''id''] True) =
     ([OpenCursor ''sg_layered_query_cursor'',
       CursorExecute (Composed [SQL ''SELECT '', Identifier ''id'', SQL '' FROM '', Identifier ''m'',
         SQL ''.'', Identifier ''stg'']),
       CursorClose, DeleteTable ''m'' ''stg'', Rollback],
      [Yield [(''id'', Some 1)], Yield [(''id'', Some 2)], Raise StopIteration],
      (run_select_from_staging ''m'' ''stg'' [''id''] True)\<lparr>gen_state := Finished\<rparr>)"
proof -
  have q: "select_query ''m'' ''stg'' [''id''] =
      Inr (Composed [SQL ''SELECT '', Identifier ''id'', SQL '' FROM '', Identifier ''m'',
         SQL ''.'', Identifier ''stg''])"
    by (simp add: select_query_def sql_format_def emit_def)
  from C5_cursor_lifecycle[of "''m''" "''stg''" "[''id'']" "[[Some (1::int)], [Some 2]]"] q
  show ?thesis by (simp add: numeral_3_eq_3)
qed

section \<open>\<open>execute\<close>: the fast path\<close>

lemma yielded_yields: "yielded (map Yield ds @ [Raise e]) = ds"
  by (induction ds) simp_all

lemma stream_fresh:
  "stream result (run_select_from_staging schema table columns drop_table) =
     map (\<lambda>t. zip columns t) result"
proof -
  let ?g = "run_select_from_staging schema table columns drop_table :: 'a select_gen"
  from select_query_text[of schema table columns] obtain q where
    "select_query schema table columns = Inr q" by blast
  then have st: "gen_state ?g = NotStarted"
    and q: "select_query (gen_schema ?g) (gen_table ?g) (gen_columns ?g) = Inr q"
    by (simp_all add: run_select_from_staging_def)
  have "fst (snd (gen_take (Suc (length result)) result ?g)) =
      map Yield (map (\<lambda>t. zip columns t) result) @ [Raise StopIteration]"
    unfolding gen_take_not_started[OF st q] gen_take_exhausted
    by (simp add: run_select_from_staging_def comp_def)
  then show ?thesis
    unfolding stream_def by (simp only: yielded_yields)
qed

lemma stream_select_result:
  "stream (select_result columns rows) (run_select_from_staging schema table columns drop_table) =
     map (\<lambda>r. zip columns (map r columns)) rows"
  by (simp add: stream_fresh select_result_def comp_def)

lemma qual_value_cong:
  "r (field_name q) = r' (field_name q) \<Longrightarrow> qual_value ops q r = qual_value ops q r'"
  by (induction ops q r rule: qual_value.induct) simp_all

lemma quals_value_cong:
  assumes "\<And>q. q \<in> set quals \<Longrightarrow> r (field_name q) = r' (field_name q)"
  shows "quals_value ops quals r = quals_value ops quals r'"
proof -
  have "map (\<lambda>q. qual_value ops q r) quals = map (\<lambda>q. qual_value ops q r') quals"
    using assms by (intro map_cong refl qual_value_cong)
  then show ?thesis by (simp only: quals_value_def)
qed

lemma quals_hold_cong:
  "(\<And>q. q \<in> set quals \<Longrightarrow> r (field_name q) = r' (field_name q)) \<Longrightarrow>
   quals_hold ops quals r = quals_hold ops quals r'"
  unfolding quals_hold_def by (simp only: quals_value_cong[of quals r r'])

lemma dict_row_zip:
  "c \<in> set columns \<Longrightarrow> dict_row (zip columns (map r columns)) c = r c"
  by (simp add: dict_row_def map_of_zip_map)

lemma reapply_quals_projected:
  assumes "\<forall>q\<in>set quals. field_name q \<in> set columns"
  shows "reapply_quals ops quals (map (\<lambda>r. zip columns (map r columns)) rows) =
     select_where ops quals columns rows"
proof -
  have "quals_hold ops quals (dict_row (zip columns (map r columns))) = quals_hold ops quals r" for r
    using assms by (intro quals_hold_cong) (simp add: dict_row_zip)
  then show ?thesis
    by (simp add: reapply_quals_def select_where_def filter_map comp_def)
qed

text \<open>
  C2 as stated fails: on the fast path no qual reaches the statement. For the snapshot of
  three rows and the qual \<open>id = 2\<close>, the statement is \<open>SELECT "v" FROM\<close> the snapshot, the
  stream is all three rows, and \<open>SELECT v FROM S WHERE id = 2\<close> is one row.
\<close>

theorem C2_fast_path_counterexample:
  "execute (example_fdw []) example_catalog ''stg'' [ScalarQual ''id'' ''='' (2::int)] [''v''] =
     ([], Inr (run_select_from_staging ''splitgraph_meta'' ''s0'' [''v''] False))
   \<and> select_query ''splitgraph_meta'' ''s0'' [''v''] =
       Inr (Composed [SQL ''SELECT '', Identifier ''v'', SQL '' FROM '',
              Identifier ''splitgraph_meta'', SQL ''.'', Identifier ''s0''])
   \<and> layered_query (example_fdw []) example_catalog example_db ''stg''
         [ScalarQual ''id'' ''='' (2::int)] [''v''] =
       Inr [[(''v'', Some 10)], [(''v'', Some 20)], [(''v'', Some 30)]]
   \<and> select_where example_ops [ScalarQual ''id'' ''='' (2::int)] [''v''] (snap_rows example_db) =
       [[(''v'', Some 20)]]"
proof -
  have ex: "execute (example_fdw []) example_catalog ''stg'' [ScalarQual ''id'' ''='' (2::int)] [''v''] =
     ([], Inr (run_select_from_staging ''splitgraph_meta'' ''s0'' [''v''] False))"
    by (simp add: execute_def example_fdw_def)
  have q: "select_query ''splitgraph_meta'' ''s0'' [''v''] =
       Inr (Composed [SQL ''SELECT '', Identifier ''v'', SQL '' FROM '',
              Identifier ''splitgraph_meta'', SQL ''.'', Identifier ''s0''])"
    by (simp add: select_query_def sql_format_def emit_def)
  have lq: "layered_query (example_fdw []) example_catalog example_db ''stg''
         [ScalarQual ''id'' ''='' (2::int)] [''v''] =
       Inr [[(''v'', Some 10)], [(''v'', Some 20)], [(''v'', Some 30)]]"
    unfolding layered_query_def ex
    by (simp add: stream_select_result example_fdw_def example_db_def example_row_def)
  have sw: "select_where example_ops [ScalarQual ''id'' ''='' (2::int)] [''v''] (snap_rows example_db) =
       [[(''v'', Some 20)]]"
    by (simp add: select_where_def quals_hold_def quals_value_def sql_all_def example_db_def
        example_row_def example_ops_def)
  from ex q lq sw show ?thesis by simp
qed

text \<open>
  C2, amended. Whenever the diff chain is empty, \<open>execute\<close> sends no statement of its own
  and returns the stream of \<open>SELECT cols FROM S\<close>: the quals are translated but are not
  part of the statement, which has no \<open>WHERE\<close> clause; every row of the snapshot is
  streamed. Once the executor has applied the quals again (the columns it asked for
  include those of the quals), the rows are those of \<open>SELECT cols FROM S WHERE Q\<close>.
\<close>

theorem C2_fast_path:
  assumes "diff_chain self = []"
  shows "execute self cat staging_table quals columns =
           ([], Inr (run_select_from_staging (meta_schema self) (snap self) columns False))
       \<and> (\<exists>q. select_query (meta_schema self) (snap self) columns = Inr q
            \<and> as_string q = ''SELECT '' @ str_join '','' (map quote_ident columns)
                 @ '' FROM '' @ quote_ident (meta_schema self) @ ''.'' @ quote_ident (snap self))
       \<and> layered_query self cat db staging_table quals columns =
           Inr (map (\<lambda>r. zip columns (map r columns)) (snap_rows db))
       \<and> ((\<forall>q\<in>set quals. field_name q \<in> set columns) \<longrightarrow>
            reapply_quals (operator_holds db) quals
              (map (\<lambda>r. zip columns (map r columns)) (snap_rows db)) =
            select_where (operator_holds db) quals columns (snap_rows db))"
proof -
  have ex: "execute self cat staging_table quals columns =
      ([], Inr (run_select_from_staging (meta_schema self) (snap self) columns False))"
    using assms by (simp add: execute_def)
  have lq: "layered_query self cat db staging_table quals columns =
      Inr (map (\<lambda>r. zip columns (map r columns)) (snap_rows db))"
    unfolding layered_query_def ex using assms by (simp add: stream_select_result)
  from ex lq select_query_text[of "meta_schema self" "snap self" columns]
    reapply_quals_projected[of quals columns "operator_holds db" "snap_rows db"]
  show ?thesis by blast
qed

theorem C2_fast_path_witness:
  "layered_query (example_fdw []) example_catalog example_db ''stg''
       [ScalarQual ''id'' ''='' (2::int)] [''id'', ''v''] =
     Inr (map (\<lambda>r. zip [''id'', ''v''] (map r [''id'', ''v''])) (snap_rows example_db))
   \<and> reapply_quals example_ops [ScalarQual ''id'' ''='' (2::int)]
       (map (\<lambda>r. zip [''id'', ''v''] (map r [''id'', ''v''])) (snap_rows example_db)) =
     [[(''id'', Some 2), (''v'', Some 20)]]"
proof -
  have a: "diff_chain (example_fdw []) = []" by (simp add: example_fdw_def)
  have b: "\<forall>q\<in>set [ScalarQual ''id'' ''='' (2::int)]. field_name q \<in> set [''id'', ''v'']" by simp
  have c: "select_where example_ops [ScalarQual ''id'' ''='' (2::int)] [''id'', ''v'']
      (snap_rows example_db) = [[(''id'', Some 2), (''v'', Some 20)]]"
    by (simp add: select_where_def quals_hold_def quals_value_def sql_all_def example_db_def
        example_row_def example_ops_def)
  have d: "operator_holds example_db = example_ops" by (simp add: example_db_def)
  from C2_fast_path[OF a, of example_catalog "''stg''" "[ScalarQual ''id'' ''='' (2::int)]"
      "[''id'', ''v'']" example_db] b c d
  show ?thesis by simp
qed

section \<open>\<open>execute\<close>: when step 1 is skipped\<close>

lemma apply_diffs_loop_kinds:
  "s \<in> set (apply_diffs_loop schema staging quals chain) \<Longrightarrow> \<not> is_insert_updated s"
  by (induction chain) (auto split: if_splits)

text \<open>
  C3 as stated fails: for a table without a primary key the change key is every column,
  so a qual on the column \<open>v\<close>, which is no primary-key column, still skips step 1.
\<close>

theorem C3_no_primary_key_counterexample:
  "fst (execute (example_fdw [''d1'']) example_catalog_no_pk ''stg''
          [ScalarQual ''v'' ''='' (10::int)] [''id'', ''v'']) =
     [CreateStagingTable ''splitgraph_meta'' ''stg'' ''s0'',
      AddKeepPkColumn ''splitgraph_meta'' ''stg'',
      InsertMatchingRows ''splitgraph_meta'' ''stg'' ''s0'' [''id'', ''v'']
        [ScalarQual ''v'' ''='' 10],
      ApplyDiffObject ''splitgraph_meta'' ''d1'' ''splitgraph_meta'' ''stg'']
   \<and> field_name (ScalarQual ''v'' ''='' (10::int)) \<notin> set (map fst (primary_keys example_catalog_no_pk))"
  by (simp add: execute_def example_fdw_def example_catalog_no_pk_def get_change_key_def
      get_column_names_def pk_only_quals_def Let_def)

text \<open>
  C3, amended. On the slow path, step 1 is skipped if and only if every column referenced
  by the quals is a column of the change key of the queried table: its primary key when it
  has one, every column otherwise. When it is not skipped, it is one statement per diff,
  in chain order.
\<close>

theorem C3_step1_skipped_iff:
  assumes "diff_chain self \<noteq> []" and "get_change_key cat \<noteq> []"
  shows "((\<forall>s\<in>set (fst (execute self cat staging_table quals columns)). \<not> is_insert_updated s)
          \<longleftrightarrow> (\<forall>q\<in>set quals. field_name q \<in> set (map fst (get_change_key cat))))
       \<and> filter is_insert_updated (fst (execute self cat staging_table quals columns)) =
          (if \<forall>q\<in>set quals. field_name q \<in> set (map fst (get_change_key cat)) then []
           else map (\<lambda>object_id. InsertUpdatedRows (meta_schema self) staging_table (snap self)
                       object_id (map fst (get_change_key cat)) (get_column_names cat))
                  (diff_chain self))"
proof -
  let ?pk_only = "\<forall>q\<in>set quals. field_name q \<in> set (map fst (get_change_key cat))"
  let ?step1 = "map (\<lambda>object_id. InsertUpdatedRows (meta_schema self) staging_table (snap self)
                       object_id (map fst (get_change_key cat)) (get_column_names cat))
                  (diff_chain self)"
  from assms(2) obtain ck cks where ck: "get_change_key cat = ck # cks"
    by (cases "get_change_key cat") auto
  have loop: "filter is_insert_updated
      (apply_diffs_loop (meta_schema self) staging_table quals (butlast (diff_chain self))) = []"
    by (auto simp: filter_empty_conv dest: apply_diffs_loop_kinds)
  have step1: "filter is_insert_updated ?step1 = ?step1"
    by (simp add: filter_id_conv)
  have flt: "filter is_insert_updated (fst (execute self cat staging_table quals columns)) =
      (if ?pk_only then [] else ?step1)"
    using assms(1) loop step1
    by (simp add: execute_def ck Let_def pk_only_quals_def list_all_iff)
  have "(\<forall>s\<in>set (fst (execute self cat staging_table quals columns)). \<not> is_insert_updated s)
      \<longleftrightarrow> filter is_insert_updated (fst (execute self cat staging_table quals columns)) = []"
    by (simp add: filter_empty_conv)
  also have "\<dots> \<longleftrightarrow> ?pk_only"
    unfolding flt using assms(1) by simp
  finally show ?thesis using flt by simp
qed

theorem C3_step1_skipped_iff_witness:
  "filter is_insert_updated (fst (execute (example_fdw [''d1'', ''d2'']) example_catalog ''stg''
        [ScalarQual ''v'' ''='' (10::int)] [''id'', ''v''])) =
     [InsertUpdatedRows ''splitgraph_meta'' ''stg'' ''s0'' ''d1'' [''id''] [''id'', ''v''],
      InsertUpdatedRows ''splitgraph_meta'' ''stg'' ''s0'' ''d2'' [''id''] [''id'', ''v'']]"
proof -
  have a: "diff_chain (example_fdw [''d1'', ''d2'']) \<noteq> []" by (simp add: example_fdw_def)
  have b: "get_change_key example_catalog \<noteq> []"
    by (simp add: get_change_key_def example_catalog_def)
  from C3_step1_skipped_iff[OF a b, of "''stg''" "[ScalarQual ''v'' ''='' (10::int)]" "[''id'', ''v'']"]
  show ?thesis
    by (simp add: get_change_key_def example_catalog_def example_fdw_def get_column_names_def)
qed

section \<open>\<open>execute\<close>: filtering between the diffs\<close>




lemma run_statements_append:
  "run_statements cat db (a @ b) st =
     (case run_statements cat db a st of
        Inl e \<Rightarrow> Inl e
      | Inr st' \<Rightarrow> run_statements cat db b st')"
  by (induction a arbitrary: st) (simp_all split: sum.splits)

lemma run_statements_then:
  "run_statements cat db a st = Inr st' \<Longrightarrow>
   run_statements cat db (a @ b) st = run_statements cat db b st'"
  by (simp add: run_statements_append)

lemma qual_filter_condition_iff:
  "(qual_filter_condition ops quals row \<noteq> Some True) \<longleftrightarrow>
     (snd row \<or> quals_value ops quals (fst row) \<noteq> Some False)"
  by (cases "quals_value ops quals (fst row)")
     (auto simp: qual_filter_condition_def sql_all_def sql_not_def)

lemma qual_filter_rows:
  "filter (\<lambda>row. qual_filter_condition ops quals row \<noteq> Some True) rows =
   filter (\<lambda>(r, keep_pk). keep_pk \<or> quals_value ops quals r \<noteq> Some False) rows"
  by (rule filter_cong) (auto simp: qual_filter_condition_iff)

lemma run_apply_diffs_loop_single:
  assumes "quals_error (get_column_names cat) quals = None"
  shows "run_statements cat db (apply_diffs_loop schema staging quals [object_id]) (Some st) =
     Inr (Some (st\<lparr>st_rows :=
        filter (\<lambda>(r, keep_pk). keep_pk \<or> quals_value (operator_holds db) quals r \<noteq> Some False)
          (apply_diff (map fst (get_change_key cat)) True (object_diff db object_id) (st_rows st))\<rparr>))"
proof (cases "quals = []")
  case True
  have "filter (\<lambda>(r, keep_pk). keep_pk \<or> quals_value (operator_holds db) [] r \<noteq> Some False) rows =
      rows" for rows :: "('a row \<times> bool) list"
    by (simp add: quals_value_def sql_all_def)
  with True show ?thesis by (simp add: on_staging_def)
next
  case False
  with assms show ?thesis by (simp add: on_staging_def qual_filter_rows)
qed





section \<open>Layered query soundness\<close>

subsection \<open>Applying a diff, row by row\<close>

lemma map_fst_update_filter:
  "map fst (map (\<lambda>(r, t). (f r, t)) (filter (\<lambda>(r, t). P r) xs)) = map f (filter P (map fst xs))"
  by (induction xs) auto

lemma map_fst_apply_diff:
  "map fst (apply_diff kc dflt d t) =
     map (update_row kc d)
       (filter (\<lambda>r. key_of kc r \<notin> set (map change_key (filter (\<lambda>c. action c = DELETE) d)))
          (map fst t))
     @ map (row_of_insert kc) (filter (\<lambda>c. action c = INSERT) d)"
proof -
  have "map fst (map (\<lambda>c. (row_of_insert kc c, dflt)) cs) = map (row_of_insert kc) cs"
    for cs :: "'a change list"
    by (induction cs) auto
  then show ?thesis
    by (simp only: apply_diff_def Let_def map_append map_fst_update_filter)
qed

lemma mset_apply_diff:
  "mset (map fst (apply_diff kc dflt d t)) =
     image_mset (update_row kc d)
       (filter_mset (\<lambda>r. key_of kc r \<notin> set (map change_key (filter (\<lambda>c. action c = DELETE) d)))
          (mset (map fst t)))
     + mset (map (row_of_insert kc) (filter (\<lambda>c. action c = INSERT) d))"
  by (simp only: map_fst_apply_diff mset_append mset_map mset_filter)

lemma apply_diff_tag:
  assumes "(r', k) \<in> set (apply_diff kc dflt d t)" and "k \<noteq> dflt"
  shows "\<exists>r. (r, k) \<in> set t \<and> r' = update_row kc d r"
  using assms by (auto simp: apply_diff_def Let_def)

lemma set_columns_other:
  "c \<notin> fst ` set cvs \<Longrightarrow> set_columns cvs r c = r c"
  unfolding set_columns_def
  by (induction cvs arbitrary: r) auto

lemma update_row_other:
  assumes "\<forall>ch\<in>set d. action ch = UPDATE \<longrightarrow> c \<notin> fst ` set (payload ch)"
  shows "update_row kc d r c = r c"
proof -
  have "fold (\<lambda>ch r'. if action ch = UPDATE \<and> change_key ch = k
                       then set_columns (payload ch) r' else r') d r0 c = r0 c" for k r0
    using assms by (induction d arbitrary: r0) (auto simp: set_columns_other)
  then show ?thesis by (simp add: update_row_def)
qed

lemma update_row_never_updated:
  assumes "\<forall>c\<in>set d. action c = UPDATE \<longrightarrow> change_key c \<noteq> key_of kc r"
  shows "update_row kc d r = r"
proof -
  have "fold (\<lambda>ch r'. if action ch = UPDATE \<and> change_key ch = key_of kc r
                       then set_columns (payload ch) r' else r') d r0 = r0" for r0
    using assms by (induction d arbitrary: r0) auto
  then show ?thesis by (simp add: update_row_def)
qed

subsection \<open>The invariant is kept by every diff and makes the filter a no-op\<close>

lemma staging_invariant_apply_diff:
  assumes inv: "staging_invariant holds stb t (map fst tm)"
    and closed: "\<And>r. stb r \<Longrightarrow> stb (update_row kc d r) \<and> holds (update_row kc d r) = holds r"
  shows "staging_invariant holds stb (apply_diff kc True d t) (map fst (apply_diff kc () d tm))"
proof -
  let ?keep = "\<lambda>r. key_of kc r \<notin> set (map change_key (filter (\<lambda>c. action c = DELETE) d))"
  let ?ins = "mset (map (row_of_insert kc) (filter (\<lambda>c. action c = INSERT) d))"
  from inv obtain hidden where
    split: "mset (map fst tm) = mset (map fst t) + hidden"
    and hid: "\<forall>r\<in>#hidden. \<not> holds r \<and> stb r"
    and fls: "\<forall>(r, keep_pk)\<in>set t. \<not> keep_pk \<longrightarrow> holds r \<and> stb r"
    unfolding staging_invariant_def by blast
  let ?hidden' = "image_mset (update_row kc d) (filter_mset ?keep hidden)"
  have "mset (map fst (apply_diff kc () d tm)) =
      image_mset (update_row kc d) (filter_mset ?keep (mset (map fst t) + hidden)) + ?ins"
    by (simp only: mset_apply_diff split)
  also have "\<dots> = mset (map fst (apply_diff kc True d t)) + ?hidden'"
    by (simp only: mset_apply_diff filter_union_mset image_mset_union ac_simps)
  finally have split': "mset (map fst (apply_diff kc () d tm)) =
      mset (map fst (apply_diff kc True d t)) + ?hidden'" .
  have hid': "\<forall>r\<in>#?hidden'. \<not> holds r \<and> stb r"
    using hid closed by auto
  have fls': "\<forall>(r, keep_pk)\<in>set (apply_diff kc True d t). \<not> keep_pk \<longrightarrow> holds r \<and> stb r"
  proof (clarify)
    fix r' keep_pk
    assume mem: "(r', keep_pk) \<in> set (apply_diff kc True d t)" and "\<not> keep_pk"
    then have "keep_pk \<noteq> True" by simp
    from apply_diff_tag[OF mem this] obtain r where
      r: "(r, keep_pk) \<in> set t" and r': "r' = update_row kc d r" by blast
    from fls r \<open>\<not> keep_pk\<close> have "holds r \<and> stb r" by auto
    with closed[of r] r' show "holds r' \<and> stb r'" by simp
  qed
  from split' hid' fls' show ?thesis
    unfolding staging_invariant_def by blast
qed

lemma staging_invariant_filter:
  assumes "staging_invariant holds stb t m" and "\<And>r. holds r \<Longrightarrow> P r"
  shows "filter (\<lambda>(r, keep_pk). keep_pk \<or> P r) t = t"
  using assms unfolding staging_invariant_def filter_id_conv by auto

lemma staging_invariant_weaken:
  assumes "staging_invariant holds stb t m" and "\<And>r. stb r \<Longrightarrow> stb' r"
  shows "staging_invariant holds stb' t m"
  using assms unfolding staging_invariant_def by blast

lemma staging_invariant_result:
  assumes "staging_invariant holds stb t m"
  shows "filter_mset holds (mset (map fst t)) = filter_mset holds (mset m)"
proof -
  from assms obtain hidden where
    split: "mset m = mset (map fst t) + hidden" and hid: "\<forall>r\<in>#hidden. \<not> holds r \<and> stb r"
    unfolding staging_invariant_def by blast
  from hid have "filter_mset holds hidden = {#}"
    by simp
  then show ?thesis by (simp add: split)
qed

lemma stable_row_closed:
  assumes d: "d \<in> set ds"
    and pk_only: "pk_only \<Longrightarrow>
        (\<forall>q\<in>set quals. field_name q \<in> set kc)
        \<and> (\<forall>c\<in>set d. action c = UPDATE \<longrightarrow> (\<forall>col\<in>fst ` set (payload c). col \<notin> set kc))"
    and stb: "stable_row pk_only kc ds r"
  shows "stable_row pk_only kc ds (update_row kc d r)
     \<and> quals_hold ops quals (update_row kc d r) = quals_hold ops quals r"
proof (cases pk_only)
  case True
  from pk_only[OF True] have fields: "\<forall>q\<in>set quals. field_name q \<in> set kc"
    and upd: "\<forall>c\<in>set d. action c = UPDATE \<longrightarrow> (\<forall>col\<in>fst ` set (payload c). col \<notin> set kc)"
    by blast+
  have "update_row kc d r (field_name q) = r (field_name q)" if "q \<in> set quals" for q
  proof (rule update_row_other)
    from fields that have "field_name q \<in> set kc" by blast
    with upd show "\<forall>ch\<in>set d. action ch = UPDATE \<longrightarrow> field_name q \<notin> fst ` set (payload ch)"
      by blast
  qed
  then have "quals_hold ops quals (update_row kc d r) = quals_hold ops quals r"
    by (rule quals_hold_cong)
  with True show ?thesis by (simp add: stable_row_def)
next
  case False
  with stb have "never_updated kc ds r" by (simp add: stable_row_def)
  with d have "\<forall>c\<in>set d. action c = UPDATE \<longrightarrow> change_key c \<noteq> key_of kc r"
    unfolding never_updated_def by blast
  then have "update_row kc d r = r" by (rule update_row_never_updated)
  with stb show ?thesis by simp
qed

subsection \<open>Inserting with \<open>ON CONFLICT DO NOTHING\<close>\<close>

lemma insert_on_conflict_no_pk: "insert_on_conflict [] new t = t @ new"
  by (induction new arbitrary: t) auto

lemma insert_on_conflict_subset: "set (insert_on_conflict pk new t) \<subseteq> set t \<union> set new"
  by (induction pk new t rule: insert_on_conflict.induct) (auto split: if_splits)

lemma conflict_keys:
  "(\<lambda>(r', k'). key_of pk r') ` set target = key_of pk ` fst ` set target"
  by (simp add: image_image case_prod_unfold)

lemma insert_on_conflict_keys:
  "key_of pk ` fst ` set (insert_on_conflict pk new t) =
     key_of pk ` fst ` set t \<union> key_of pk ` fst ` set new"
  if "pk \<noteq> []"
  using that
proof (induction pk new t rule: insert_on_conflict.induct)
  case (1 pk target)
  then show ?case by simp
next
  case (2 pk r k new target)
  note img = conflict_keys[of pk target]
  show ?case
    using 2 by (auto simp: img image_Un)
qed

lemma insert_on_conflict_distinct:
  "distinct (map (\<lambda>x. key_of pk (fst x)) (insert_on_conflict pk new t))"
  if "pk \<noteq> []" and "distinct (map (\<lambda>x. key_of pk (fst x)) t)"
  using that
proof (induction pk new t rule: insert_on_conflict.induct)
  case (1 pk target)
  then show ?case by simp
next
  case (2 pk r k new target)
  note img = conflict_keys[of pk target]
  show ?case
  proof (cases "key_of pk r \<in> key_of pk ` fst ` set target")
    case True
    with 2 show ?thesis by (simp add: img)
  next
    case False
    then have "distinct (map (\<lambda>x. key_of pk (fst x)) (target @ [(r, k)]))"
      using "2.prems"(2) by (auto simp: image_iff)
    with 2 False show ?thesis by (simp add: img)
  qed
qed

lemma insert_on_conflict_fresh:
  "x \<in> set new \<and> key_of pk (fst x) \<notin> key_of pk ` fst ` set t"
  if "pk \<noteq> []" and "x \<in> set (insert_on_conflict pk new t)" and "x \<notin> set t"
  using that
proof (induction pk new t rule: insert_on_conflict.induct)
  case (1 pk target)
  then show ?case by simp
next
  case (2 pk r k new target)
  note img = conflict_keys[of pk target]
  show ?case
  proof (cases "key_of pk r \<in> key_of pk ` fst ` set target")
    case True
    with 2 show ?thesis by (simp add: img)
  next
    case False
    show ?thesis
    proof (cases "x = (r, k)")
      case True
      with False show ?thesis by simp
    next
      case neq: False
      with "2.prems" False have "x \<in> set (insert_on_conflict pk new (target @ [(r, k)]))"
        and "x \<notin> set (target @ [(r, k)])"
        by (simp_all add: img)
      moreover have "x \<in> set (insert_on_conflict pk new (target @ [(r, k)])) \<Longrightarrow>
          x \<notin> set (target @ [(r, k)]) \<Longrightarrow>
          x \<in> set new \<and> key_of pk (fst x) \<notin> key_of pk ` fst ` set (target @ [(r, k)])"
        using "2.IH" "2.prems"(1) False by (simp add: conflict_keys)
      ultimately have "x \<in> set new \<and>
          key_of pk (fst x) \<notin> key_of pk ` fst ` set (target @ [(r, k)])"
        by blast
      then show ?thesis by auto
    qed
  qed
qed

lemma updated_snapshot_rows_iff:
  "x \<in> set (updated_snapshot_rows ri rows d) \<longleftrightarrow>
     snd x = True \<and> fst x \<in> set rows
     \<and> (\<exists>c\<in>set d. action c = UPDATE \<and> change_key c = key_of ri (fst x))"
  by (cases x) (auto simp: updated_snapshot_rows_def)

text \<open>Step 1, over the diffs \<open>ch\<close>, started from the table \<open>t\<close>.\<close>

lemma step1_fold:
  fixes diff_of :: "string \<Rightarrow> 'v change list" and rows :: "'v row list"
  assumes pk: "pk \<noteq> []"
  shows "(distinct (map (\<lambda>x. key_of pk (fst x)) t) \<longrightarrow>
            distinct (map (\<lambda>x. key_of pk (fst x))
              (fold (\<lambda>object_id. insert_on_conflict pk (updated_snapshot_rows pk rows (diff_of object_id))) ch t)))
       \<and> set (fold (\<lambda>object_id. insert_on_conflict pk (updated_snapshot_rows pk rows (diff_of object_id))) ch t)
            \<subseteq> set t \<union> {x. snd x = True \<and> fst x \<in> set rows}
       \<and> key_of pk ` fst ` set (fold (\<lambda>object_id. insert_on_conflict pk (updated_snapshot_rows pk rows (diff_of object_id))) ch t) =
           key_of pk ` fst ` set t
           \<union> {key_of pk r | r. r \<in> set rows \<and>
                (\<exists>object_id\<in>set ch. \<exists>c\<in>set (diff_of object_id).
                    action c = UPDATE \<and> change_key c = key_of pk r)}"
  (is "?P ch t")
proof (induction ch arbitrary: t)
  case Nil
  then show ?case by simp
next
  case (Cons object_id ch)
  let ?new = "updated_snapshot_rows pk rows (diff_of object_id)"
  let ?t1 = "insert_on_conflict pk ?new t"
  let ?step = "\<lambda>object_id. insert_on_conflict pk (updated_snapshot_rows pk rows (diff_of object_id))"
  have f: "fold ?step (object_id # ch) t = fold ?step ch ?t1"
    by simp
  have d1: "distinct (map (\<lambda>x. key_of pk (fst x)) t) \<longrightarrow> distinct (map (\<lambda>x. key_of pk (fst x)) ?t1)"
    using insert_on_conflict_distinct[OF pk] by blast
  have s1: "set ?t1 \<subseteq> set t \<union> {x. snd x = True \<and> fst x \<in> set rows}"
    using insert_on_conflict_subset[of pk ?new t] updated_snapshot_rows_iff[of _ pk rows "diff_of object_id"]
    by blast
  have newkeys: "key_of pk ` fst ` set ?new =
      {key_of pk r | r. r \<in> set rows \<and>
         (\<exists>c\<in>set (diff_of object_id). action c = UPDATE \<and> change_key c = key_of pk r)}"
    using updated_snapshot_rows_iff[of _ pk rows "diff_of object_id"]
    by (auto simp: image_iff) (metis fst_conv snd_conv)
  have k1: "key_of pk ` fst ` set ?t1 = key_of pk ` fst ` set t
      \<union> {key_of pk r | r. r \<in> set rows \<and>
         (\<exists>c\<in>set (diff_of object_id). action c = UPDATE \<and> change_key c = key_of pk r)}"
    by (simp only: insert_on_conflict_keys[OF pk] newkeys)
  from Cons.IH[of ?t1] d1 s1 k1 show ?case
    unfolding f by (auto simp del: fold_simps)
qed

subsection \<open>The staging table after steps 1 and 2\<close>

lemma initial_invariant_pk:
  fixes diff_of :: "string \<Rightarrow> 'v change list" and rows :: "'v row list"
  assumes pk: "pk \<noteq> []" and dist: "distinct (map (key_of pk) rows)"
  shows "staging_invariant holds (never_updated pk (map diff_of ch))
     (insert_on_conflict pk (map (\<lambda>r. (r, False)) (filter holds rows))
        (fold (\<lambda>object_id. insert_on_conflict pk (updated_snapshot_rows pk rows (diff_of object_id))) ch []))
     rows"
proof -
  let ?t1 = "fold (\<lambda>object_id. insert_on_conflict pk (updated_snapshot_rows pk rows (diff_of object_id))) ch []"
  let ?new = "map (\<lambda>r. (r, False)) (filter holds rows)"
  let ?t0 = "insert_on_conflict pk ?new ?t1"
  let ?upd = "\<lambda>r. \<exists>object_id\<in>set ch. \<exists>c\<in>set (diff_of object_id).
      action c = UPDATE \<and> change_key c = key_of pk r"
  from step1_fold[OF pk, of "[]" rows diff_of ch]
  have d1: "distinct (map (\<lambda>x. key_of pk (fst x)) ?t1)"
    and s1: "set ?t1 \<subseteq> {x. snd x = True \<and> fst x \<in> set rows}"
    and k1: "key_of pk ` fst ` set ?t1 = {key_of pk r | r. r \<in> set rows \<and> ?upd r}"
    by simp_all
  have d0: "distinct (map (\<lambda>x. key_of pk (fst x)) ?t0)"
    using insert_on_conflict_distinct[OF pk d1] .
  have s0: "fst ` set ?t0 \<subseteq> set rows"
    using insert_on_conflict_subset[of pk ?new ?t1] s1 by auto
  have k0: "key_of pk ` fst ` set ?t0 =
      {key_of pk r | r. r \<in> set rows \<and> ?upd r} \<union> {key_of pk r | r. r \<in> set rows \<and> holds r}"
    unfolding insert_on_conflict_keys[OF pk] k1 by (auto simp: image_iff)
  from dist have drows: "distinct rows" and inj: "inj_on (key_of pk) (set rows)"
    by (simp_all add: distinct_map)
  have "distinct (map (key_of pk) (map fst ?t0))"
    using d0 by (simp add: comp_def)
  then have dt0: "distinct (map fst ?t0)"
    by (simp only: distinct_map)
  let ?in = "filter (\<lambda>r. r \<in> fst ` set ?t0) rows"
  let ?out = "filter (\<lambda>r. r \<notin> fst ` set ?t0) rows"
  have "set ?in = set (map fst ?t0)"
    using s0 by auto
  moreover have "distinct ?in" using drows by simp
  ultimately have in_eq: "mset ?in = mset (map fst ?t0)"
    using dt0 by (simp only: set_eq_iff_mset_eq_distinct)
  have "mset rows = mset ?in + mset ?out"
    by (simp only: mset_filter) (rule multiset_partition)
  then have split: "mset rows = mset (map fst ?t0) + mset ?out"
    by (simp only: in_eq)
  have key_out: "key_of pk r \<notin> key_of pk ` fst ` set ?t0"
    if "r \<in> set rows" and "r \<notin> fst ` set ?t0" for r
  proof
    assume "key_of pk r \<in> key_of pk ` fst ` set ?t0"
    then obtain r' where r': "r' \<in> fst ` set ?t0" and eq: "key_of pk r = key_of pk r'"
      by blast
    from r' s0 have "r' \<in> set rows" by blast
    with inj that(1) eq have "r = r'" by (simp add: inj_on_def)
    with r' that(2) show False by simp
  qed
  have hid: "\<forall>r\<in>#mset ?out. \<not> holds r \<and> never_updated pk (map diff_of ch) r"
  proof
    fix r assume "r \<in># mset ?out"
    then have r: "r \<in> set rows" and out: "r \<notin> fst ` set ?t0" by simp_all
    from key_out[OF r out] r have "\<not> holds r" and "\<not> ?upd r"
      unfolding k0 by blast+
    then show "\<not> holds r \<and> never_updated pk (map diff_of ch) r"
      unfolding never_updated_def by auto
  qed
  have fls: "\<forall>(r, keep_pk)\<in>set ?t0. \<not> keep_pk \<longrightarrow> holds r \<and> never_updated pk (map diff_of ch) r"
  proof (clarify)
    fix r keep_pk
    assume mem: "(r, keep_pk) \<in> set ?t0" and "\<not> keep_pk"
    with s1 have "(r, keep_pk) \<notin> set ?t1" by auto
    from insert_on_conflict_fresh[OF pk mem this]
    have new: "(r, keep_pk) \<in> set ?new" and fresh: "key_of pk r \<notin> key_of pk ` fst ` set ?t1"
      by simp_all
    from new have r: "r \<in> set rows" and h: "holds r" by auto
    from fresh r have "\<not> ?upd r" unfolding k1 by blast
    with h show "holds r \<and> never_updated pk (map diff_of ch) r"
      unfolding never_updated_def by auto
  qed
  from split hid fls show ?thesis
    unfolding staging_invariant_def by blast
qed

lemma initial_invariant_no_pk:
  "staging_invariant holds (\<lambda>r. True) (map (\<lambda>r. (r, False)) (filter holds rows)) rows"
proof -
  have "mset rows = mset (filter holds rows) + mset (filter (\<lambda>r. \<not> holds r) rows)"
    by (simp only: mset_filter) (rule multiset_partition)
  then have "mset rows = mset (map fst (map (\<lambda>r. (r, False)) (filter holds rows)))
      + mset (filter (\<lambda>r. \<not> holds r) rows)"
    by (simp add: comp_def)
  moreover have "\<forall>r\<in>#mset (filter (\<lambda>r. \<not> holds r) rows). \<not> holds r \<and> True" by simp
  moreover have "\<forall>(r, keep_pk)\<in>set (map (\<lambda>r. (r, False)) (filter holds rows)).
      \<not> keep_pk \<longrightarrow> holds r \<and> True" by auto
  ultimately show ?thesis
    unfolding staging_invariant_def by blast
qed

subsection \<open>Running the statements of \<open>execute\<close>\<close>

lemma run_step1:
  "run_statements cat db
     (map (\<lambda>object_id. InsertUpdatedRows schema staging snp object_id ri_cols all_cols) ch) (Some st) =
   Inr (Some (st\<lparr>st_rows :=
     fold (\<lambda>object_id. insert_on_conflict (st_pk st)
             (updated_snapshot_rows ri_cols (snap_rows db) (object_diff db object_id)))
       ch (st_rows st)\<rparr>))"
proof (induction ch arbitrary: st)
  case Nil
  then show ?case by simp
next
  case (Cons object_id ch)
  let ?st1 = "st\<lparr>st_rows := insert_on_conflict (st_pk st)
      (updated_snapshot_rows ri_cols (snap_rows db) (object_diff db object_id)) (st_rows st)\<rparr>"
  have "run_statements cat db
     (map (\<lambda>object_id. InsertUpdatedRows schema staging snp object_id ri_cols all_cols) (object_id # ch))
     (Some st) =
     run_statements cat db
       (map (\<lambda>object_id. InsertUpdatedRows schema staging snp object_id ri_cols all_cols) ch) (Some ?st1)"
    by (simp add: on_staging_def)
  then show ?case
    by (simp only: Cons.IH) simp
qed

lemma quals_error_None_iff:
  "quals_error cols quals = None \<longleftrightarrow>
     (\<forall>q\<in>set quals. field_name q \<in> set cols) \<and> (\<forall>f opr aa. ListQual f opr aa [] \<notin> set quals)"
proof (induction quals)
  case Nil
  then show ?case by simp
next
  case (Cons q quals)
  have "qual_error cols q = None \<longleftrightarrow>
      field_name q \<in> set cols \<and> (\<forall>f opr aa. q \<noteq> ListQual f opr aa [])"
    by (cases q) auto
  with Cons show ?case
    by (auto split: option.splits)
qed

lemma run_apply_diffs_loop_invariant:
  assumes closed: "\<And>object_id r. object_id \<in> set ch \<Longrightarrow> stb r \<Longrightarrow>
      stb (update_row (map fst (get_change_key cat)) (object_diff db object_id) r)
      \<and> quals_hold (operator_holds db) quals
           (update_row (map fst (get_change_key cat)) (object_diff db object_id) r) =
         quals_hold (operator_holds db) quals r"
    and inv: "staging_invariant (quals_hold (operator_holds db) quals) stb (st_rows st) (map fst tm)"
    and ok: "quals_error (get_column_names cat) quals = None"
  shows "\<exists>st'. run_statements cat db (apply_diffs_loop schema staging quals ch) (Some st) =
          Inr (Some st')
      \<and> staging_invariant (quals_hold (operator_holds db) quals) stb (st_rows st')
          (map fst (fold (\<lambda>object_id t. apply_diff (map fst (get_change_key cat)) ()
                            (object_diff db object_id) t) ch tm))"
  using closed inv
proof (induction ch arbitrary: st tm)
  case Nil
  then show ?case by simp
next
  case (Cons object_id ch)
  let ?kc = "map fst (get_change_key cat)"
  let ?d = "object_diff db object_id"
  let ?q = "quals_hold (operator_holds db) quals"
  have inv1: "staging_invariant ?q stb (apply_diff ?kc True ?d (st_rows st))
      (map fst (apply_diff ?kc () ?d tm))"
    by (rule staging_invariant_apply_diff[OF Cons.prems(2)]) (rule Cons.prems(1), simp_all)
  let ?st1 = "st\<lparr>st_rows := apply_diff ?kc True ?d (st_rows st)\<rparr>"
  have keep: "filter (\<lambda>(r, keep_pk). keep_pk \<or> quals_value (operator_holds db) quals r \<noteq> Some False)
      (apply_diff ?kc True ?d (st_rows st)) = apply_diff ?kc True ?d (st_rows st)"
    by (rule staging_invariant_filter[OF inv1]) (simp add: quals_hold_def)
  have one: "run_statements cat db (apply_diffs_loop schema staging quals [object_id]) (Some st) =
      Inr (Some ?st1)"
    by (simp only: run_apply_diffs_loop_single[OF ok] keep)
  have app: "apply_diffs_loop schema staging quals (object_id # ch) =
      apply_diffs_loop schema staging quals [object_id] @ apply_diffs_loop schema staging quals ch"
    by simp
  have inv1': "staging_invariant ?q stb (st_rows ?st1) (map fst (apply_diff ?kc () ?d tm))"
    using inv1 by simp
  have "\<exists>st'. run_statements cat db (apply_diffs_loop schema staging quals ch) (Some ?st1) =
          Inr (Some st')
      \<and> staging_invariant ?q stb (st_rows st')
          (map fst (fold (\<lambda>object_id t. apply_diff ?kc () (object_diff db object_id) t) ch
             (apply_diff ?kc () ?d tm)))"
    by (rule Cons.IH[OF _ inv1']) (rule Cons.prems(1), simp_all)
  then show ?case
    by (simp only: app run_statements_then[OF one] fold_simps(2))
qed

lemma mset_select_where:
  "mset (select_where ops quals columns rows) =
     image_mset (\<lambda>r. zip columns (map r columns)) (filter_mset (quals_hold ops quals) (mset rows))"
  by (simp add: select_where_def)

subsection \<open>Soundness\<close>

text \<open>
  The slow path with a list qual that has no value: whatever the table and the chain,
  \<open>execute\<close> raises, since the engine refuses step 2 when no earlier statement failed.
\<close>

lemma slow_path_empty_array:
  assumes chain: "diff_chain self \<noteq> []" and key: "get_change_key cat \<noteq> []"
    and empty: "ListQual f opr aa [] \<in> set quals"
  shows "\<exists>e. layered_query self cat db staging_table quals columns = Inl e"
proof -
  let ?kc = "map fst (get_change_key cat)"
  let ?pk = "map fst (primary_keys cat)"
  let ?pko = "pk_only_quals ?kc quals"
  from key obtain ck cks where ck: "get_change_key cat = ck # cks"
    by (cases "get_change_key cat") auto
  let ?prep = "[CreateStagingTable (meta_schema self) staging_table (snap self),
                AddKeepPkColumn (meta_schema self) staging_table]
               @ (if primary_keys cat \<noteq> []
                  then [AddPrimaryKey (meta_schema self) staging_table ?pk] else [])"
  let ?ch1 = "if ?pko then [] else diff_chain self"
  let ?step1 = "map (\<lambda>object_id. InsertUpdatedRows (meta_schema self) staging_table (snap self)
                       object_id ?kc (get_column_names cat)) ?ch1"
  let ?step2 = "[InsertMatchingRows (meta_schema self) staging_table (snap self)
                   (get_column_names cat) quals]"
  let ?rest = "apply_diffs_loop (meta_schema self) staging_table quals (butlast (diff_chain self))
      @ [ApplyDiffObject (meta_schema self) (last (diff_chain self)) (meta_schema self) staging_table]"
  let ?gen = "run_select_from_staging (meta_schema self) staging_table columns True :: 'a select_gen"
  have ex: "execute self cat staging_table quals columns =
      (?prep @ ?step1 @ ?step2 @ ?rest, Inr ?gen)"
    using chain by (cases ?pko) (simp_all add: execute_def ck Let_def)
  from empty have "quals_error (get_column_names cat) quals \<noteq> None"
    by (auto simp: quals_error_None_iff)
  then obtain e where e: "quals_error (get_column_names cat) quals = Some e" by blast
  have r2: "run_statements cat db (?step2 @ ?rest) (Some st) = Inl e" for st
    using e by (simp add: on_staging_def)
  have "\<exists>e'. run_statements cat db (?prep @ ?step1 @ ?step2 @ ?rest) None = Inl e'"
  proof (cases "''sg_meta_keep_pk'' \<in> set (get_column_names cat)")
    case True
    then show ?thesis by (simp add: on_staging_def)
  next
    case False
    then have r0: "run_statements cat db ?prep None = Inr (Some \<lparr>st_pk = ?pk, st_rows = []\<rparr>)"
      by (simp add: on_staging_def)
    have "run_statements cat db (?prep @ ?step1 @ ?step2 @ ?rest) None =
        run_statements cat db (?step1 @ ?step2 @ ?rest) (Some \<lparr>st_pk = ?pk, st_rows = []\<rparr>)"
      by (rule run_statements_then[OF r0])
    also have "\<dots> = Inl e"
      by (simp only: run_statements_then[OF run_step1] r2)
    finally show ?thesis by blast
  qed
  then obtain e' where
    "run_statements cat db (?prep @ ?step1 @ ?step2 @ ?rest) None = Inl e'" by blast
  then have "layered_query self cat db staging_table quals columns = Inl e'"
    by (simp only: layered_query_def ex prod.case sum.case)
  then show ?thesis by blast
qed

text \<open>
  C1. Let the quals be on columns of the table that are among the requested columns (the
  executor asks the wrapper for every column its quals read), let the snapshot respect
  its primary key, and let a table with a diff chain have a column, none of them named
  \<open>sg_meta_keep_pk\<close>, and be queried with list quals of at least one value: on the slow
  path \<open>execute\<close> raises otherwise, \<open>ValueError\<close> from \<open>zip\<close> or the engine's error for
  \<open>ADD COLUMN sg_meta_keep_pk\<close> or for \<open>ANY(ARRAY[])\<close>. When the quals read change-key
  columns only, let no \<open>UPDATE\<close> record of the chain change a change-key column (the
  contract of the change tracker). Then the layered query returns, and its rows, once the
  executor has applied the quals again, are as a multiset the rows of
  \<open>SELECT columns FROM\<close> the fully materialized table \<open>WHERE quals\<close>, in SQL's three-valued
  logic.
\<close>

theorem C1_layered_query_sound:
  assumes columns_known: "\<forall>q\<in>set quals. field_name q \<in> set (map fst (column_names_types cat))"
    and requested: "\<forall>q\<in>set quals. field_name q \<in> set columns"
    and has_columns: "diff_chain self \<noteq> [] \<longrightarrow> get_change_key cat \<noteq> []"
    and no_clash: "diff_chain self \<noteq> [] \<longrightarrow>
        ''sg_meta_keep_pk'' \<notin> set (map fst (column_names_types cat))"
    and list_values: "diff_chain self \<noteq> [] \<longrightarrow> (\<forall>f opr aa. ListQual f opr aa [] \<notin> set quals)"
    and pk_unique: "primary_keys cat \<noteq> [] \<longrightarrow>
        distinct (map (key_of (map fst (primary_keys cat))) (snap_rows db))"
    and key_fixed: "pk_only_quals (map fst (get_change_key cat)) quals \<longrightarrow>
        (\<forall>object_id\<in>set (diff_chain self). \<forall>c\<in>set (object_diff db object_id).
           action c = UPDATE \<longrightarrow>
           (\<forall>col\<in>fst ` set (payload c). col \<notin> set (map fst (get_change_key cat))))"
  shows "\<exists>rows. layered_query self cat db staging_table quals columns = Inr rows
     \<and> mset (reapply_quals (operator_holds db) quals rows) =
         mset (select_where (operator_holds db) quals columns
                 (materialize cat db (diff_chain self)))"
proof (cases "diff_chain self = []")
  case True
  have ex: "execute self cat staging_table quals columns =
      ([], Inr (run_select_from_staging (meta_schema self) (snap self) columns False))"
    using True by (simp add: execute_def)
  have lq: "layered_query self cat db staging_table quals columns =
      Inr (map (\<lambda>r. zip columns (map r columns)) (snap_rows db))"
    unfolding layered_query_def ex using True by (simp add: stream_select_result)
  have mat: "materialize cat db (diff_chain self) = snap_rows db"
    by (simp add: materialize_def True comp_def)
  show ?thesis
    unfolding lq mat using reapply_quals_projected[OF requested] by simp
next
  case False
  let ?kc = "map fst (get_change_key cat)"
  let ?S = "snap_rows db"
  let ?D = "object_diff db"
  let ?Q = "quals_hold (operator_holds db) quals"
  let ?chain = "diff_chain self"
  let ?pk = "map fst (primary_keys cat)"
  let ?pko = "pk_only_quals ?kc quals"
  let ?stb = "stable_row ?pko ?kc (map ?D ?chain)"
  from has_columns False obtain ck cks where ck: "get_change_key cat = ck # cks"
    by (cases "get_change_key cat") auto
  let ?prep = "[CreateStagingTable (meta_schema self) staging_table (snap self),
                AddKeepPkColumn (meta_schema self) staging_table]
               @ (if primary_keys cat \<noteq> []
                  then [AddPrimaryKey (meta_schema self) staging_table ?pk] else [])"
  let ?ch1 = "if ?pko then [] else ?chain"
  let ?step1 = "map (\<lambda>object_id. InsertUpdatedRows (meta_schema self) staging_table (snap self)
                       object_id ?kc (get_column_names cat)) ?ch1"
  let ?step2 = "[InsertMatchingRows (meta_schema self) staging_table (snap self)
                   (get_column_names cat) quals]"
  let ?loop = "apply_diffs_loop (meta_schema self) staging_table quals (butlast ?chain)"
  let ?final = "[ApplyDiffObject (meta_schema self) (last ?chain) (meta_schema self) staging_table]"
  let ?gen = "run_select_from_staging (meta_schema self) staging_table columns True :: 'a select_gen"
  have ex: "execute self cat staging_table quals columns =
      (?prep @ ?step1 @ ?step2 @ ?loop @ ?final, Inr ?gen)"
    using False by (cases ?pko) (simp_all add: execute_def ck Let_def)
  let ?t1 = "fold (\<lambda>object_id. insert_on_conflict ?pk (updated_snapshot_rows ?kc ?S (?D object_id)))
      ?ch1 []"
  let ?t0 = "insert_on_conflict ?pk (map (\<lambda>r. (r, False)) (filter ?Q ?S)) ?t1"
  from columns_known list_values False
  have ok: "quals_error (get_column_names cat) quals = None"
    by (simp add: quals_error_None_iff get_column_names_def)
  from no_clash False have fresh: "''sg_meta_keep_pk'' \<notin> set (get_column_names cat)"
    by (simp add: get_column_names_def)
  have r0: "run_statements cat db ?prep None = Inr (Some \<lparr>st_pk = ?pk, st_rows = []\<rparr>)"
    using fresh by (simp add: on_staging_def)
  have r1: "run_statements cat db ?step1 (Some \<lparr>st_pk = ?pk, st_rows = []\<rparr>) =
      Inr (Some \<lparr>st_pk = ?pk, st_rows = ?t1\<rparr>)"
    by (simp only: run_step1) simp
  have r2: "run_statements cat db ?step2 (Some \<lparr>st_pk = ?pk, st_rows = ?t1\<rparr>) =
      Inr (Some \<lparr>st_pk = ?pk, st_rows = ?t0\<rparr>)"
    using ok by (simp add: on_staging_def)
  have inv0: "staging_invariant ?Q ?stb ?t0 (map fst (map (\<lambda>r. (r, ())) ?S))"
  proof (cases "primary_keys cat = []")
    case True
    then have kc_all: "?kc = map fst (column_names_types cat)"
      by (simp add: get_change_key_def)
    have pko: ?pko
      using columns_known by (simp add: pk_only_quals_def list_all_iff kc_all)
    have "?t0 = map (\<lambda>r. (r, False)) (filter ?Q ?S)"
      using True pko by (simp add: insert_on_conflict_no_pk)
    moreover have "staging_invariant ?Q ?stb (map (\<lambda>r. (r, False)) (filter ?Q ?S)) ?S"
      by (rule staging_invariant_weaken[OF initial_invariant_no_pk]) (simp add: stable_row_def pko)
    ultimately show ?thesis by (simp add: comp_def)
  next
    case False
    then have kc_pk: "?kc = ?pk" by (simp add: get_change_key_def)
    from False have pkne: "?pk \<noteq> []" by simp
    from False pk_unique have dist: "distinct (map (key_of ?pk) ?S)" by blast
    have "staging_invariant ?Q (never_updated ?pk (map ?D ?ch1)) ?t0 ?S"
      unfolding kc_pk by (rule initial_invariant_pk[OF pkne dist])
    then have "staging_invariant ?Q ?stb ?t0 ?S"
      by (rule staging_invariant_weaken) (auto simp: stable_row_def kc_pk split: if_splits)
    then show ?thesis by (simp add: comp_def)
  qed
  have closed: "?stb (update_row ?kc (?D object_id) r)
      \<and> ?Q (update_row ?kc (?D object_id) r) = ?Q r"
    if "object_id \<in> set ?chain" and "?stb r" for object_id r
  proof (rule stable_row_closed[OF _ _ that(2)])
    from that(1) show "?D object_id \<in> set (map ?D ?chain)" by simp
    assume pko: ?pko
    then have "\<forall>q\<in>set quals. field_name q \<in> set ?kc"
      by (simp add: pk_only_quals_def list_all_iff)
    moreover from key_fixed pko that(1)
    have "\<forall>c\<in>set (?D object_id). action c = UPDATE \<longrightarrow>
        (\<forall>col\<in>fst ` set (payload c). col \<notin> set ?kc)"
      by blast
    ultimately show "(\<forall>q\<in>set quals. field_name q \<in> set ?kc)
        \<and> (\<forall>c\<in>set (?D object_id). action c = UPDATE \<longrightarrow>
             (\<forall>col\<in>fst ` set (payload c). col \<notin> set ?kc))"
      by blast
  qed
  let ?tm1 = "fold (\<lambda>object_id t. apply_diff ?kc () (?D object_id) t) (butlast ?chain)
      (map (\<lambda>r. (r, ())) ?S)"
  have "\<exists>st'. run_statements cat db ?loop (Some \<lparr>st_pk = ?pk, st_rows = ?t0\<rparr>) = Inr (Some st')
      \<and> staging_invariant ?Q ?stb (st_rows st') (map fst ?tm1)"
  proof (rule run_apply_diffs_loop_invariant[OF _ _ ok])
    fix object_id r
    assume bl: "object_id \<in> set (butlast ?chain)" and stb: "?stb r"
    from bl have "object_id \<in> set ?chain" by (rule in_set_butlastD)
    from closed[OF this stb]
    show "?stb (update_row ?kc (?D object_id) r) \<and> ?Q (update_row ?kc (?D object_id) r) = ?Q r" .
  next
    from inv0 show "staging_invariant ?Q ?stb (st_rows \<lparr>st_pk = ?pk, st_rows = ?t0\<rparr>)
        (map fst (map (\<lambda>r. (r, ())) ?S))"
      by simp
  qed
  then obtain st1 where
    loop: "run_statements cat db ?loop (Some \<lparr>st_pk = ?pk, st_rows = ?t0\<rparr>) = Inr (Some st1)"
    and inv1: "staging_invariant ?Q ?stb (st_rows st1) (map fst ?tm1)"
    by blast
  let ?dn = "?D (last ?chain)"
  let ?st2 = "st1\<lparr>st_rows := apply_diff ?kc True ?dn (st_rows st1)\<rparr>"
  have fin: "run_statements cat db ?final (Some st1) = Inr (Some ?st2)"
    by (simp add: on_staging_def)
  from False have last_in: "last ?chain \<in> set ?chain" by simp
  have inv2: "staging_invariant ?Q ?stb (apply_diff ?kc True ?dn (st_rows st1))
      (map fst (apply_diff ?kc () ?dn ?tm1))"
    by (rule staging_invariant_apply_diff[OF inv1]) (rule closed[OF last_in])
  from False have "?chain = butlast ?chain @ [last ?chain]" by simp
  then have "fold (\<lambda>object_id t. apply_diff ?kc () (?D object_id) t) ?chain (map (\<lambda>r. (r, ())) ?S) =
      fold (\<lambda>object_id t. apply_diff ?kc () (?D object_id) t) (butlast ?chain @ [last ?chain])
        (map (\<lambda>r. (r, ())) ?S)"
    by simp
  then have mat: "materialize cat db ?chain = map fst (apply_diff ?kc () ?dn ?tm1)"
    by (simp only: materialize_def fold_append fold_simps comp_def id_apply)
  have "run_statements cat db (?prep @ ?step1 @ ?step2 @ ?loop @ ?final) None =
      run_statements cat db (?step1 @ ?step2 @ ?loop @ ?final) (Some \<lparr>st_pk = ?pk, st_rows = []\<rparr>)"
    by (rule run_statements_then[OF r0])
  also have "\<dots> = run_statements cat db (?step2 @ ?loop @ ?final) (Some \<lparr>st_pk = ?pk, st_rows = ?t1\<rparr>)"
    by (rule run_statements_then[OF r1])
  also have "\<dots> = run_statements cat db (?loop @ ?final) (Some \<lparr>st_pk = ?pk, st_rows = ?t0\<rparr>)"
    by (rule run_statements_then[OF r2])
  also have "\<dots> = run_statements cat db ?final (Some st1)"
    by (rule run_statements_then[OF loop])
  also have "\<dots> = Inr (Some ?st2)"
    by (rule fin)
  finally have run: "run_statements cat db (?prep @ ?step1 @ ?step2 @ ?loop @ ?final) None =
      Inr (Some ?st2)" .
  have lq: "layered_query self cat db staging_table quals columns =
      Inr (map (\<lambda>r. zip columns (map r columns)) (map fst (st_rows ?st2)))"
    unfolding layered_query_def ex using False run
    by (simp add: stream_select_result)
  have "mset (reapply_quals (operator_holds db) quals
        (map (\<lambda>r. zip columns (map r columns)) (map fst (st_rows ?st2)))) =
      mset (select_where (operator_holds db) quals columns (map fst (st_rows ?st2)))"
    by (simp only: reapply_quals_projected[OF requested])
  also have "\<dots> = image_mset (\<lambda>r. zip columns (map r columns))
      (filter_mset ?Q (mset (map fst (apply_diff ?kc True ?dn (st_rows st1)))))"
    by (simp add: mset_select_where)
  also have "\<dots> = image_mset (\<lambda>r. zip columns (map r columns))
      (filter_mset ?Q (mset (materialize cat db ?chain)))"
    by (simp only: staging_invariant_result[OF inv2] mat)
  also have "\<dots> = mset (select_where (operator_holds db) quals columns (materialize cat db ?chain))"
    by (simp only: mset_select_where)
  finally show ?thesis
    using lq by blast
qed

theorem C1_layered_query_sound_witness:
  "\<exists>rows. layered_query (example_fdw [''d1'', ''d2'', ''d3'', ''d4'']) example_catalog example_db
               ''stg'' [ScalarQual ''id'' ''='' (2::int)] [''id'', ''v''] = Inr rows
     \<and> mset (reapply_quals example_ops [ScalarQual ''id'' ''='' (2::int)] rows) =
         {#[(''id'', Some 2), (''v'', Some 77)]#}"
proof -
  let ?self = "example_fdw [''d1'', ''d2'', ''d3'', ''d4'']"
  let ?quals = "[ScalarQual ''id'' ''='' (2::int)]"
  have kc: "map fst (get_change_key example_catalog) = [''id'']"
    by (simp add: get_change_key_def example_catalog_def)
  have a: "\<forall>q\<in>set ?quals. field_name q \<in> set (map fst (column_names_types example_catalog))"
    by (simp add: example_catalog_def)
  have b: "\<forall>q\<in>set ?quals. field_name q \<in> set [''id'', ''v'']"
    by simp
  have c: "diff_chain ?self \<noteq> [] \<longrightarrow> get_change_key example_catalog \<noteq> []"
    by (simp add: get_change_key_def example_catalog_def)
  have nc: "diff_chain ?self \<noteq> [] \<longrightarrow>
      ''sg_meta_keep_pk'' \<notin> set (map fst (column_names_types example_catalog))"
    by (simp add: example_catalog_def)
  have lv: "diff_chain ?self \<noteq> [] \<longrightarrow> (\<forall>f opr aa. ListQual f opr aa [] \<notin> set ?quals)"
    by simp
  have d: "primary_keys example_catalog \<noteq> [] \<longrightarrow>
      distinct (map (key_of (map fst (primary_keys example_catalog))) (snap_rows example_db))"
    by (simp add: example_catalog_def example_db_def key_of_def example_row_def)
  have e: "pk_only_quals (map fst (get_change_key example_catalog)) ?quals \<longrightarrow>
      (\<forall>object_id\<in>set (diff_chain ?self). \<forall>c\<in>set (object_diff example_db object_id).
         action c = UPDATE \<longrightarrow>
         (\<forall>col\<in>fst ` set (payload c). col \<notin> set (map fst (get_change_key example_catalog))))"
    by (simp add: kc example_fdw_def example_db_def)
  have ops: "operator_holds example_db = example_ops"
    by (simp add: example_db_def)
  have m: "select_where example_ops ?quals [''id'', ''v'']
      (materialize example_catalog example_db (diff_chain ?self)) =
      [[(''id'', Some 2), (''v'', Some 77)]]"
    by code_simp
  from C1_layered_query_sound[OF a b c nc lv d e, of "''stg''"]
  show ?thesis
    by (simp only: ops m) simp
qed

end
